theory Spec2Isabelle
  imports Main "HOL-Library.Word"
begin

unbundle bit_operations_syntax

section \<open>Low-level probing of block devices: the session of \<open>probe.c\<close>\<close>

text \<open>
  The development follows \<^verbatim>\<open>libs/blkid/src/probe.c\<close>.  A session (\<^verbatim>\<open>blkid_probe\<close>)
  is a record that every operation takes and returns; a pointer that may be \<^verbatim>\<open>NULL\<close> is
  an \<open>option\<close>; the file behind the descriptor and the allocator are an explicit
  argument of the operations that reach them.
\<close>

type_synonym byte = "8 word"

subsection \<open>Constants of the headers\<close>

text \<open>
  Modelled from the spec: the private header \<^verbatim>\<open>blkidP.h\<close> is not among the sources, so
  the three size constants take the values the specification gives
  (\<open>SB_BUFSIZ = 65536\<close>, \<open>MAX_VALUE_BYTES = 256\<close>, and the least admitted
  \<open>MAX_TAGS\<close>, 16).
\<close>

definition BLKID_SB_BUFSIZ :: int where
  "BLKID_SB_BUFSIZ = 0x10000"

definition BLKID_PROBVAL_BUFSIZ :: nat where
  "BLKID_PROBVAL_BUFSIZ = 256"

definition BLKID_PROBVAL_NVALS :: nat where
  "BLKID_PROBVAL_NVALS = 16"

text \<open>
  Modelled from the spec: the public header \<^verbatim>\<open>blkid.h\<close> is not among the sources
  either.  The specification names the flags of the probe-request mask, the usage
  classes and the two filter modes; each is one bit of its own.
\<close>

definition BLKID_PROBREQ_LABEL :: "32 word" where "BLKID_PROBREQ_LABEL = 2"
definition BLKID_PROBREQ_LABELRAW :: "32 word" where "BLKID_PROBREQ_LABELRAW = 4"
definition BLKID_PROBREQ_UUID :: "32 word" where "BLKID_PROBREQ_UUID = 8"
definition BLKID_PROBREQ_UUIDRAW :: "32 word" where "BLKID_PROBREQ_UUIDRAW = 16"
definition BLKID_PROBREQ_TYPE :: "32 word" where "BLKID_PROBREQ_TYPE = 32"
definition BLKID_PROBREQ_USAGE :: "32 word" where "BLKID_PROBREQ_USAGE = 128"
definition BLKID_PROBREQ_VERSION :: "32 word" where "BLKID_PROBREQ_VERSION = 256"

definition BLKID_USAGE_FILESYSTEM :: "32 word" where "BLKID_USAGE_FILESYSTEM = 2"
definition BLKID_USAGE_RAID :: "32 word" where "BLKID_USAGE_RAID = 4"
definition BLKID_USAGE_CRYPTO :: "32 word" where "BLKID_USAGE_CRYPTO = 8"
definition BLKID_USAGE_OTHER :: "32 word" where "BLKID_USAGE_OTHER = 16"

definition BLKID_FLTR_NOTIN :: "32 word" where "BLKID_FLTR_NOTIN = 1"
definition BLKID_FLTR_ONLYIN :: "32 word" where "BLKID_FLTR_ONLYIN = 2"

definition BLKID_ENC_UTF16BE :: int where "BLKID_ENC_UTF16BE = 0"
definition BLKID_ENC_UTF16LE :: int where "BLKID_ENC_UTF16LE = 1"

subsection \<open>The system under the session\<close>

text \<open>
  The file open at the session's descriptor and the allocator.  \<open>file_data\<close> is the
  content of the file from its first byte; \<open>seek_ok\<close> and \<open>read_ok\<close> say whether
  \<^verbatim>\<open>lseek\<close> and \<^verbatim>\<open>read\<close> work on it at all; \<open>blk_size\<close> is what
  \<^verbatim>\<open>blkdev_get_size\<close> stores (nothing when it fails); an allocation succeeds when
  it asks for at most \<open>mem_avail\<close> bytes.
\<close>

record sys =
  file_data :: "byte list"
  seek_ok :: bool
  read_ok :: bool
  blk_size :: "int option"
  mem_avail :: int

definition sys_lseek :: "sys \<Rightarrow> int \<Rightarrow> int" where
  "sys_lseek s pos = (if seek_ok s \<and> 0 \<le> pos then pos else -1)"

text \<open>\<^verbatim>\<open>read\<close> of \<open>n\<close> bytes at position \<open>pos\<close>: the count returned and the bytes stored.\<close>

definition sys_read :: "sys \<Rightarrow> int \<Rightarrow> int \<Rightarrow> int \<times> byte list" where
  "sys_read s pos n =
     (if read_ok s
      then (let d = take (nat n) (drop (nat pos) (file_data s)) in (int (length d), d))
      else (-1, []))"

text \<open>\<^verbatim>\<open>malloc\<close>: fresh memory is taken to be zeroed.\<close>

definition sys_malloc :: "sys \<Rightarrow> int \<Rightarrow> byte list option" where
  "sys_malloc s n = (if n \<le> mem_avail s then Some (replicate (nat n) 0) else None)"

text \<open>\<^verbatim>\<open>realloc\<close>: the old content is kept up to the new size.\<close>

definition sys_realloc :: "sys \<Rightarrow> byte list option \<Rightarrow> int \<Rightarrow> byte list option" where
  "sys_realloc s old n =
     (if n \<le> mem_avail s
      then Some (take (nat n) ((case old of None \<Rightarrow> [] | Some b \<Rightarrow> b) @ replicate (nat n) 0))
      else None)"

text \<open>
  Storing \<open>d\<close> at the start of the array \<open>b\<close> (\<^verbatim>\<open>memcpy\<close>, or what \<^verbatim>\<open>read\<close> stores).
  An array does not grow: what would fall behind its end is not part of it.
\<close>

definition store_at0 :: "byte list \<Rightarrow> byte list \<Rightarrow> byte list" where
  "store_at0 b d = take (length b) (d @ drop (length d) b)"

text \<open>
  \<^verbatim>\<open>blkid_loff_t\<close> is a signed 64-bit integer.  Offsets are \<open>int\<close>s, and every sum or
  difference the code forms of them is cut to 64 bits, two's complement.
\<close>

definition wrap64 :: "int \<Rightarrow> int" where
  "wrap64 x = signed_take_bit 63 x"

subsection \<open>The session\<close>

text \<open>
  Modelled from the spec: \<^verbatim>\<open>struct blkid_prval\<close> and \<^verbatim>\<open>struct blkid_struct_probe\<close>
  are declared in the missing \<^verbatim>\<open>blkidP.h\<close>; the fields are those \<^verbatim>\<open>probe.c\<close> uses.
  A tag entry is a borrowed name, an inline array of \<open>BLKID_PROBVAL_BUFSIZ\<close> bytes and a
  length; the tag store is an array of \<open>BLKID_PROBVAL_NVALS\<close> entries and a count.
\<close>

record blkid_prval =
  v_name :: "string option"
  v_data :: "byte list"
  v_len :: nat

record blkid_struct_probe =
  fd :: int
  off :: int
  dev_size :: int
  sbbuf :: "byte list option"
  sbbuf_len :: int
  buf :: "byte list option"
  buf_off :: int
  buf_len :: int
  buf_max :: int
  vals :: "blkid_prval list"
  nvals :: nat
  probreq :: "32 word"
  idx :: nat
  fltr :: "64 word list option"

type_synonym blkid_probe = "blkid_struct_probe option"

definition zero_prval :: blkid_prval where
  "zero_prval = \<lparr>v_name = None, v_data = replicate BLKID_PROBVAL_BUFSIZ 0, v_len = 0\<rparr>"

text \<open>\<^verbatim>\<open>calloc(1, sizeof(struct blkid_struct_probe))\<close>: every field zero.\<close>

definition zero_probe :: blkid_struct_probe where
  "zero_probe =
     \<lparr>fd = 0, off = 0, dev_size = 0, sbbuf = None, sbbuf_len = 0,
      buf = None, buf_off = 0, buf_len = 0, buf_max = 0,
      vals = replicate BLKID_PROBVAL_NVALS zero_prval, nvals = 0,
      probreq = 0, idx = 0, fltr = None\<rparr>"

definition blkid_new_probe :: "sys \<Rightarrow> blkid_probe" where
  "blkid_new_probe s = (if 1 \<le> mem_avail s then Some zero_probe else None)"

definition blkid_probe_reset_vals :: "blkid_struct_probe \<Rightarrow> blkid_struct_probe" where
  "blkid_probe_reset_vals pr =
     pr\<lparr>vals := replicate BLKID_PROBVAL_NVALS zero_prval, nvals := 0\<rparr>"

text \<open>The body of \<^verbatim>\<open>blkid_reset_probe\<close> behind its \<^verbatim>\<open>NULL\<close> check.\<close>

definition reset_probe_body :: "blkid_struct_probe \<Rightarrow> blkid_struct_probe" where
  "reset_probe_body pr =
     (let pr1 = (case buf pr of
                   None \<Rightarrow> pr
                 | Some b \<Rightarrow> pr\<lparr>buf := Some (store_at0 b (replicate (min (nat (buf_max pr)) (length b)) 0))\<rparr>);
          pr2 = pr1\<lparr>buf_off := 0, buf_len := 0\<rparr>;
          pr3 = (case sbbuf pr2 of
                   None \<Rightarrow> pr2
                 | Some b \<Rightarrow> pr2\<lparr>sbbuf := Some (replicate (nat BLKID_SB_BUFSIZ) 0)\<rparr>);
          pr4 = pr3\<lparr>sbbuf_len := 0\<rparr>
      in blkid_probe_reset_vals pr4)"

definition blkid_reset_probe :: "blkid_probe \<Rightarrow> blkid_probe" where
  "blkid_reset_probe p = (case p of None \<Rightarrow> None | Some pr \<Rightarrow> Some (reset_probe_body pr))"

subsection \<open>The two-tier buffer cache\<close>

text \<open>
  The pointer \<^verbatim>\<open>blkid_probe_get_buffer\<close> returns: the buffer it points into and the
  offset from the start of that buffer, which may lie before the start or behind the
  end.  \<open>peek\<close> reads \<open>n\<close> bytes there; it has a value only when all of them lie
  inside the array.
\<close>

datatype bufptr = In_sbbuf int | In_buf int

definition slice :: "byte list \<Rightarrow> int \<Rightarrow> nat \<Rightarrow> byte list option" where
  "slice b k n =
     (if 0 \<le> k \<and> nat k + n \<le> length b then Some (take n (drop (nat k) b)) else None)"

definition peek :: "blkid_struct_probe \<Rightarrow> bufptr \<Rightarrow> nat \<Rightarrow> byte list option" where
  "peek pr p n =
     (case p of
        In_sbbuf k \<Rightarrow> (case sbbuf pr of None \<Rightarrow> None | Some b \<Rightarrow> slice b k n)
      | In_buf k \<Rightarrow> (case buf pr of None \<Rightarrow> None | Some b \<Rightarrow> slice b k n))"

text \<open>The first tier: allocate the superblock buffer when it is missing.\<close>

definition sb_alloc :: "sys \<Rightarrow> blkid_struct_probe \<Rightarrow> blkid_struct_probe option" where
  "sb_alloc s pr =
     (case sbbuf pr of
        Some b \<Rightarrow> Some pr
      | None \<Rightarrow> (case sys_malloc s BLKID_SB_BUFSIZ of
                   None \<Rightarrow> None
                 | Some b \<Rightarrow> Some (pr\<lparr>sbbuf := Some b\<rparr>)))"

text \<open>Fill it when it holds nothing: seek to the origin, read up to the buffer's size.\<close>

definition sb_fill :: "sys \<Rightarrow> blkid_struct_probe \<Rightarrow> blkid_struct_probe option" where
  "sb_fill s pr =
     (if sbbuf_len pr = 0 then
        (if sys_lseek s (off pr) < 0 then None
         else (case sys_read s (off pr) BLKID_SB_BUFSIZ of
                 (ret_read, d) \<Rightarrow>
                   (let ret_read' = (if ret_read < 0 then 0 else ret_read)
                    in Some (pr\<lparr>sbbuf := map_option (\<lambda>b. store_at0 b d) (sbbuf pr),
                                sbbuf_len := ret_read'\<rparr>))))
      else Some pr)"

text \<open>The second tier: grow the general buffer when the request is larger than it.\<close>

definition buf_grow :: "sys \<Rightarrow> blkid_struct_probe \<Rightarrow> int \<Rightarrow> (bool \<times> blkid_struct_probe) option" where
  "buf_grow s pr len =
     (if len > buf_max pr then
        (case sys_realloc s (buf pr) len of
           None \<Rightarrow> None
         | Some newbuf \<Rightarrow>
             Some (True, pr\<lparr>buf := Some newbuf, buf_max := len, buf_off := 0, buf_len := 0\<rparr>))
      else Some (False, pr))"

text \<open>
  The pointer into the general buffer that the second tier returns,
  \<^verbatim>\<open>off ? pr->buf + (off - pr->buf_off) : pr->buf\<close>; it is \<^verbatim>\<open>NULL\<close> when the buffer is.
\<close>

definition buf_ptr :: "blkid_struct_probe \<Rightarrow> int \<Rightarrow> bufptr option \<times> blkid_struct_probe" where
  "buf_ptr pr ofs =
     (case buf pr of
        None \<Rightarrow> (None, pr)
      | Some b \<Rightarrow> (Some (In_buf (if ofs \<noteq> 0 then wrap64 (ofs - buf_off pr) else 0)), pr))"

text \<open>The seek to \<^verbatim>\<open>pr->off + off\<close> and the read of exactly \<open>len\<close> bytes.\<close>

definition buf_read ::
  "sys \<Rightarrow> blkid_struct_probe \<Rightarrow> int \<Rightarrow> int \<Rightarrow> bufptr option \<times> blkid_struct_probe" where
  "buf_read s pr ofs len =
     (if sys_lseek s (wrap64 (off pr + ofs)) < 0 then (None, pr)
      else (case sys_read s (wrap64 (off pr + ofs)) len of
              (ret_read, d) \<Rightarrow>
                (let pr1 = pr\<lparr>buf := map_option (\<lambda>b. store_at0 b d) (buf pr)\<rparr>
                 in if ret_read \<noteq> len then (None, pr1)
                    else buf_ptr (pr1\<lparr>buf_off := ofs, buf_len := len\<rparr>) ofs)))"

definition blkid_probe_get_buffer ::
  "sys \<Rightarrow> blkid_struct_probe \<Rightarrow> int \<Rightarrow> int \<Rightarrow> bufptr option \<times> blkid_struct_probe" where
  "blkid_probe_get_buffer s pr ofs len =
     (if wrap64 (ofs + len) \<le> BLKID_SB_BUFSIZ then
        (case sb_alloc s pr of
           None \<Rightarrow> (None, pr)
         | Some pr1 \<Rightarrow>
            (case sb_fill s pr1 of
               None \<Rightarrow> (None, pr1)
             | Some pr2 \<Rightarrow>
                 if wrap64 (ofs + len) > sbbuf_len pr2 then (None, pr2)
                 else (Some (In_sbbuf ofs), pr2)))
      else
        (case buf_grow s pr len of
           None \<Rightarrow> (None, pr)
         | Some (newbuf, pr1) \<Rightarrow>
            if newbuf \<or> ofs < buf_off pr1
                 \<or> wrap64 (ofs + len) > wrap64 (buf_off pr1 + buf_len pr1)
            then buf_read s pr1 ofs len
            else buf_ptr pr1 ofs))"

subsection \<open>Binding a device\<close>

definition blkid_probe_set_device ::
  "sys \<Rightarrow> blkid_probe \<Rightarrow> int \<Rightarrow> int \<Rightarrow> int \<Rightarrow> int \<times> blkid_probe" where
  "blkid_probe_set_device s p fd' off' size' =
     (case p of
        None \<Rightarrow> (-1, None)
      | Some pr \<Rightarrow>
          (let pr1 = reset_probe_body pr;
               pr2 = pr1\<lparr>fd := fd', off := off'\<rparr>;
               pr3 = (if size' = 0
                      then (case blk_size s of None \<Rightarrow> pr2 | Some n \<Rightarrow> pr2\<lparr>dev_size := n\<rparr>)
                      else pr2\<lparr>dev_size := size'\<rparr>)
           in (case blkid_probe_get_buffer s pr3 0 0x200 of
                 (None, pr4) \<Rightarrow> (-1, Some pr4)
               | (Some b, pr4) \<Rightarrow> (0, Some (pr4\<lparr>idx := 0\<rparr>)))))"

definition blkid_probe_set_request :: "blkid_probe \<Rightarrow> 32 word \<Rightarrow> int \<times> blkid_probe" where
  "blkid_probe_set_request p flags =
     (case p of None \<Rightarrow> (-1, None) | Some pr \<Rightarrow> (0, Some (pr\<lparr>probreq := flags\<rparr>)))"

subsection \<open>The tag store\<close>

text \<open>
  What goes wrong below the level of return codes: a store through the \<^verbatim>\<open>NULL\<close> a
  failed slot assignment returned, and an access one past the end of the tag array.
\<close>

datatype fault = Null_deref | Out_of_bounds

text \<open>C strings are \<open>string\<close>s; their bytes are the character codes.\<close>

definition bytes_of :: "string \<Rightarrow> byte list" where
  "bytes_of str = map (\<lambda>c. of_nat (of_char c)) str"

text \<open>Applying \<open>f\<close> to the entry \<^verbatim>\<open>pr->vals[v]\<close>.\<close>

definition val_upd ::
  "blkid_struct_probe \<Rightarrow> nat \<Rightarrow> (blkid_prval \<Rightarrow> blkid_prval) \<Rightarrow> blkid_struct_probe" where
  "val_upd pr v f = pr\<lparr>vals := (vals pr)[v := f (vals pr ! v)]\<rparr>"

text \<open>The bytes a reader of \<^verbatim>\<open>blkid_probe_get_value\<close> is given for an entry.\<close>

definition prval_bytes :: "blkid_prval \<Rightarrow> byte list" where
  "prval_bytes e = take (v_len e) (v_data e)"

definition blkid_probe_numof_values :: "blkid_probe \<Rightarrow> int" where
  "blkid_probe_numof_values p = (case p of None \<Rightarrow> -1 | Some pr \<Rightarrow> int (nvals pr))"

text \<open>The slot handed out is its index in \<^verbatim>\<open>pr->vals\<close>; \<open>None\<close> is \<^verbatim>\<open>NULL\<close>.\<close>

definition blkid_probe_assign_value ::
  "blkid_struct_probe \<Rightarrow> string option \<Rightarrow> nat option \<times> blkid_struct_probe" where
  "blkid_probe_assign_value pr name =
     (case name of
        None \<Rightarrow> (None, pr)
      | Some n \<Rightarrow>
          if nvals pr \<ge> BLKID_PROBVAL_NVALS then (None, pr)
          else (let v = nvals pr;
                    pr1 = val_upd pr v (\<lambda>e. e\<lparr>v_name := Some n\<rparr>)
                in (Some v, pr1\<lparr>nvals := nvals pr1 + 1\<rparr>)))"

text \<open>
  A buffer argument \<^verbatim>\<open>(data, len)\<close> is the list of the \<open>len\<close> bytes at \<^verbatim>\<open>data\<close>.
\<close>

definition blkid_probe_set_value ::
  "blkid_struct_probe \<Rightarrow> string option \<Rightarrow> byte list \<Rightarrow> int \<times> blkid_struct_probe" where
  "blkid_probe_set_value pr name data =
     (let len = (if length data > BLKID_PROBVAL_BUFSIZ then BLKID_PROBVAL_BUFSIZ else length data)
      in (case blkid_probe_assign_value pr name of
            (None, pr1) \<Rightarrow> (-1, pr1)
          | (Some v, pr1) \<Rightarrow>
              (0, val_upd pr1 v
                    (\<lambda>e. e\<lparr>v_data := store_at0 (v_data e) (take len data), v_len := len\<rparr>))))"

text \<open>
  The variadic arguments, as the code reads them: the first one taken as a string
  (\<^verbatim>\<open>va_arg(ap, char *)\<close>, \<open>None\<close> for \<^verbatim>\<open>NULL\<close>), and the text \<^verbatim>\<open>vsnprintf\<close> expands
  the format to over them.
\<close>

record va_list =
  va_str :: "byte list option"
  va_out :: "byte list"

text \<open>What \<^verbatim>\<open>vsnprintf\<close> stores in a buffer of \<open>n\<close> bytes for the expansion \<open>out\<close>.\<close>

definition snprintf_bytes :: "nat \<Rightarrow> byte list \<Rightarrow> byte list" where
  "snprintf_bytes n out = (if n = 0 then [] else take (n - 1) out @ [0])"

definition blkid_probe_vsprintf_value ::
  "blkid_struct_probe \<Rightarrow> string option \<Rightarrow> string \<Rightarrow> va_list \<Rightarrow> int \<times> blkid_struct_probe" where
  "blkid_probe_vsprintf_value pr name fmt ap =
     (case blkid_probe_assign_value pr name of
        (None, pr1) \<Rightarrow> (-1, pr1)
      | (Some v, pr1) \<Rightarrow>
          (let pr2 = val_upd pr1 v
                       (\<lambda>e. e\<lparr>v_data := store_at0 (v_data e)
                                            (snprintf_bytes BLKID_PROBVAL_BUFSIZ (va_out ap))\<rparr>);
               len = length (va_out ap)
           in if len \<le> 0 then (-1, pr2\<lparr>nvals := nvals pr2 - 1\<rparr>)
              else (0, val_upd pr2 v (\<lambda>e. e\<lparr>v_len := len + 1\<rparr>))))"

definition blkid_probe_set_version ::
  "blkid_struct_probe \<Rightarrow> string \<Rightarrow> int \<times> blkid_struct_probe" where
  "blkid_probe_set_version pr version =
     (if probreq pr AND BLKID_PROBREQ_VERSION \<noteq> 0
      then blkid_probe_set_value pr (Some ''VERSION'') (bytes_of version @ [0])
      else (0, pr))"

definition blkid_probe_sprintf_version ::
  "blkid_struct_probe \<Rightarrow> string \<Rightarrow> va_list \<Rightarrow> int \<times> blkid_struct_probe" where
  "blkid_probe_sprintf_version pr fmt ap =
     (if probreq pr AND BLKID_PROBREQ_VERSION \<noteq> 0
      then blkid_probe_vsprintf_value pr (Some ''VERSION'') fmt ap
      else (0, pr))"

definition blkid_probe_set_usage ::
  "blkid_struct_probe \<Rightarrow> 32 word \<Rightarrow> int \<times> blkid_struct_probe" where
  "blkid_probe_set_usage pr usage =
     (let u = (if usage AND BLKID_USAGE_FILESYSTEM \<noteq> 0 then ''filesystem''
               else if usage AND BLKID_USAGE_RAID \<noteq> 0 then ''raid''
               else if usage AND BLKID_USAGE_CRYPTO \<noteq> 0 then ''crypto''
               else if usage AND BLKID_USAGE_OTHER \<noteq> 0 then ''other''
               else ''unknown'')
      in blkid_probe_set_value pr (Some ''USAGE'') (bytes_of u @ [0]))"

subsection \<open>Labels\<close>

text \<open>\<^verbatim>\<open>isspace\<close> in the C locale.\<close>

definition isspace :: "byte \<Rightarrow> bool" where
  "isspace c = (c = 0x20 \<or> (0x09 \<le> c \<and> c \<le> 0x0d))"

definition strnlen :: "byte list \<Rightarrow> nat \<Rightarrow> nat" where
  "strnlen d n = length (takeWhile (\<lambda>c. c \<noteq> 0) (take n d))"

definition strlen :: "byte list \<Rightarrow> nat" where
  "strlen d = length (takeWhile (\<lambda>c. c \<noteq> 0) d)"

text \<open>
  The loop \<^verbatim>\<open>while (i--) { if (!isspace(v->data[i])) break; }\<close> followed by \<^verbatim>\<open>++i\<close>:
  the value \<open>i\<close> has after the increment.
\<close>

fun strip_end :: "byte list \<Rightarrow> nat \<Rightarrow> nat" where
  "strip_end d 0 = 0"
| "strip_end d (Suc i) = (if \<not> isspace (d ! i) then Suc i else strip_end d i)"

text \<open>
  The array \<^verbatim>\<open>v->data\<close> has \<open>BLKID_PROBVAL_BUFSIZ\<close> bytes, so with
  \<open>len = BLKID_PROBVAL_BUFSIZ\<close> the store \<^verbatim>\<open>v->data[len] = '\0'\<close> falls one byte past
  it.  The later store \<^verbatim>\<open>v->data[++i] = '\0'\<close> is at an index of at most \<open>len\<close>; it
  is inside the array whenever the first one is.
\<close>

definition blkid_probe_set_label ::
  "blkid_struct_probe \<Rightarrow> byte list \<Rightarrow> fault + int \<times> blkid_struct_probe" where
  "blkid_probe_set_label pr label =
     (let len = (if length label > BLKID_PROBVAL_BUFSIZ then BLKID_PROBVAL_BUFSIZ else length label);
          (rc, pr1) = (if probreq pr AND BLKID_PROBREQ_LABELRAW \<noteq> 0
                       then blkid_probe_set_value pr (Some ''LABEL_RAW'') (take len label)
                       else (0, pr))
      in if probreq pr AND BLKID_PROBREQ_LABELRAW \<noteq> 0 \<and> rc < 0 then Inr (-1, pr1)
         else if probreq pr1 AND BLKID_PROBREQ_LABEL = 0 then Inr (0, pr1)
         else (case blkid_probe_assign_value pr1 (Some ''LABEL'') of
                 (None, pr2) \<Rightarrow> Inr (-1, pr2)
               | (Some v, pr2) \<Rightarrow>
                   if \<not> len < BLKID_PROBVAL_BUFSIZ then Inl Out_of_bounds
                   else
                     Inr (0, val_upd pr2 v
                               (\<lambda>e. let d1 = store_at0 (v_data e) (take len label);
                                        d2 = d1[len := 0];
                                        i = strip_end d2 (strnlen d2 len)
                                    in e\<lparr>v_data := d2[i := 0], v_len := i + 1\<rparr>))))"

fun encode_loop :: "int \<Rightarrow> nat \<Rightarrow> byte list \<Rightarrow> byte list \<Rightarrow> byte list" where
  "encode_loop enc len (a # b # src) out =
     (let c = (if enc = BLKID_ENC_UTF16LE
               then push_bit 8 (ucast b) OR ucast a
               else push_bit 8 (ucast a) OR ucast b) :: 16 word
      in if c = 0 then out
         else if c < 0x80 then
           (if length out + 1 \<ge> len then out
            else encode_loop enc len src (out @ [ucast c]))
         else if c < 0x800 then
           (if length out + 2 \<ge> len then out
            else encode_loop enc len src
                   (out @ [ucast (0xc0 OR drop_bit 6 c), ucast (0x80 OR (c AND 0x3f))]))
         else
           (if length out + 3 \<ge> len then out
            else encode_loop enc len src
                   (out @ [ucast (0xe0 OR drop_bit 12 c),
                           ucast (0x80 OR (drop_bit 6 c AND 0x3f)),
                           ucast (0x80 OR (c AND 0x3f))])))"
| "encode_loop enc len src out = out"

text \<open>The destination after the call, and the count \<open>j\<close> returned.\<close>

definition encode_to_utf8 :: "int \<Rightarrow> byte list \<Rightarrow> nat \<Rightarrow> byte list \<Rightarrow> byte list \<times> nat" where
  "encode_to_utf8 enc dest len src =
     (let out = encode_loop enc len src [] in (store_at0 dest (out @ [0]), length out))"

definition blkid_probe_set_utf8label ::
  "blkid_struct_probe \<Rightarrow> byte list \<Rightarrow> int \<Rightarrow> int \<times> blkid_struct_probe" where
  "blkid_probe_set_utf8label pr label enc =
     (let (rc, pr1) = (if probreq pr AND BLKID_PROBREQ_LABELRAW \<noteq> 0
                       then blkid_probe_set_value pr (Some ''LABEL_RAW'') label
                       else (0, pr))
      in if probreq pr AND BLKID_PROBREQ_LABELRAW \<noteq> 0 \<and> rc < 0 then (-1, pr1)
         else if probreq pr1 AND BLKID_PROBREQ_LABEL = 0 then (0, pr1)
         else (case blkid_probe_assign_value pr1 (Some ''LABEL'') of
                 (None, pr2) \<Rightarrow> (-1, pr2)
               | (Some v, pr2) \<Rightarrow>
                   (0, val_upd pr2 v
                         (\<lambda>e. let (d, j) = encode_to_utf8 enc (v_data e) BLKID_PROBVAL_BUFSIZ label
                              in e\<lparr>v_data := d, v_len := j\<rparr>))))"

subsection \<open>UUIDs\<close>

definition uuid_is_empty :: "byte list \<Rightarrow> nat \<Rightarrow> bool" where
  "uuid_is_empty b len = list_all (\<lambda>c. c = 0) (take len b)"

text \<open>\<^verbatim>\<open>strncpy(dst, src, n)\<close>: the string up to its terminator, padded with zeros to \<open>n\<close>.\<close>

definition strncpy :: "byte list \<Rightarrow> byte list \<Rightarrow> nat \<Rightarrow> byte list" where
  "strncpy dst src n = store_at0 dst (take n (takeWhile (\<lambda>c. c \<noteq> 0) src @ replicate n 0))"

definition lower_AF :: "byte \<Rightarrow> byte" where
  "lower_AF c = (if c \<ge> 0x41 \<and> c \<le> 0x46 then (c - 0x41) + 0x61 else c)"

text \<open>The loop over \<^verbatim>\<open>v->data[0 .. v->len)\<close> that closes \<^verbatim>\<open>blkid_probe_sprintf_uuid\<close>.\<close>

definition lower_entry :: "blkid_prval \<Rightarrow> blkid_prval" where
  "lower_entry e = e\<lparr>v_data := map lower_AF (take (v_len e) (v_data e)) @ drop (v_len e) (v_data e)\<rparr>"

definition blkid_probe_sprintf_uuid ::
  "blkid_struct_probe \<Rightarrow> byte list \<Rightarrow> string \<Rightarrow> va_list \<Rightarrow> fault + int \<times> blkid_struct_probe" where
  "blkid_probe_sprintf_uuid pr uuid fmt ap =
     (let len = (if length uuid > BLKID_PROBVAL_BUFSIZ then BLKID_PROBVAL_BUFSIZ else length uuid)
      in if uuid_is_empty uuid len then Inr (0, pr)
         else
          (let (rc1, pr1) = (if probreq pr AND BLKID_PROBREQ_UUIDRAW \<noteq> 0
                             then blkid_probe_set_value pr (Some ''UUID_RAW'') (take len uuid)
                             else (0, pr))
           in if probreq pr AND BLKID_PROBREQ_UUIDRAW \<noteq> 0 \<and> rc1 < 0 then Inr (-1, pr1)
              else if probreq pr1 AND BLKID_PROBREQ_UUID = 0 then Inr (0, pr1)
              else
               (let (rc, pr2) =
                      (if fmt = ''%s'' then
                         (case va_str ap of
                            None \<Rightarrow> (-1, pr1)
                          | Some str \<Rightarrow>
                              if str \<noteq> [] \<and> hd str \<noteq> 0 then
                                (case blkid_probe_assign_value pr1 (Some ''UUID'') of
                                   (None, pr') \<Rightarrow> (-1, pr')
                                 | (Some v, pr') \<Rightarrow>
                                     (0, val_upd pr' v
                                           (\<lambda>e. let d = strncpy (v_data e) str BLKID_PROBVAL_BUFSIZ;
                                                    d' = d[BLKID_PROBVAL_BUFSIZ - 1 := 0]
                                                in e\<lparr>v_data := d', v_len := strlen d'\<rparr>)))
                              else (-1, pr1))
                       else blkid_probe_vsprintf_value pr1 (Some ''UUID'') fmt ap)
                in if rc = 0 then
                     (if nvals pr2 < BLKID_PROBVAL_NVALS
                      then Inr (rc, val_upd pr2 (nvals pr2) lower_entry)
                      else Inl Out_of_bounds)
                   else Inr (rc, pr2))))"

definition hexdigit :: "byte \<Rightarrow> byte" where
  "hexdigit n = (if n < 10 then 0x30 + n else 0x57 + n)"

definition hex2 :: "byte \<Rightarrow> byte list" where
  "hex2 b = [hexdigit (drop_bit 4 b), hexdigit (b AND 0x0f)]"

text \<open>
  The expansion of the format
  \<^verbatim>\<open>%02x%02x%02x%02x-%02x%02x-%02x%02x-%02x%02x-%02x%02x%02x%02x%02x%02x\<close>
  over the sixteen bytes.
\<close>

definition uuid_unparse :: "byte list \<Rightarrow> byte list" where
  "uuid_unparse u =
     concat (map hex2 (take 4 u)) @ [0x2d] @
     concat (map hex2 (take 2 (drop 4 u))) @ [0x2d] @
     concat (map hex2 (take 2 (drop 6 u))) @ [0x2d] @
     concat (map hex2 (take 2 (drop 8 u))) @ [0x2d] @
     concat (map hex2 (take 6 (drop 10 u)))"

text \<open>
  The tail of \<^verbatim>\<open>blkid_probe_set_uuid_as\<close>, which writes through the slot without
  looking at it.
\<close>

definition uuid_store ::
  "nat option \<times> blkid_struct_probe \<Rightarrow> byte list \<Rightarrow> fault + int \<times> blkid_struct_probe" where
  "uuid_store vp uuid =
     (case vp of
        (None, pr) \<Rightarrow> Inl Null_deref
      | (Some v, pr) \<Rightarrow>
          Inr (0, val_upd pr v
                    (\<lambda>e. e\<lparr>v_data := store_at0 (v_data e)
                                         (snprintf_bytes BLKID_PROBVAL_BUFSIZ (uuid_unparse uuid)),
                           v_len := length (uuid_unparse uuid) + 1\<rparr>)))"

definition blkid_probe_set_uuid_as ::
  "blkid_struct_probe \<Rightarrow> byte list \<Rightarrow> string option \<Rightarrow> fault + int \<times> blkid_struct_probe" where
  "blkid_probe_set_uuid_as pr uuid name =
     (if uuid_is_empty uuid 16 then Inr (0, pr)
      else
       (case name of
          None \<Rightarrow>
            (let (rc, pr1) = (if probreq pr AND BLKID_PROBREQ_UUIDRAW \<noteq> 0
                              then blkid_probe_set_value pr (Some ''UUID_RAW'') (take 16 uuid)
                              else (0, pr))
             in if probreq pr AND BLKID_PROBREQ_UUIDRAW \<noteq> 0 \<and> rc < 0 then Inr (-1, pr1)
                else if probreq pr1 AND BLKID_PROBREQ_UUID = 0 then Inr (0, pr1)
                else uuid_store (blkid_probe_assign_value pr1 (Some ''UUID'')) uuid)
        | Some n \<Rightarrow> uuid_store (blkid_probe_assign_value pr (Some n)) uuid))"

definition blkid_probe_set_uuid ::
  "blkid_struct_probe \<Rightarrow> byte list \<Rightarrow> fault + int \<times> blkid_struct_probe" where
  "blkid_probe_set_uuid pr uuid = blkid_probe_set_uuid_as pr uuid None"

subsection \<open>Reading values back\<close>

definition blkid_probe_get_value ::
  "blkid_probe \<Rightarrow> int \<Rightarrow> (string option \<times> byte list \<times> nat) option" where
  "blkid_probe_get_value p num =
     (case p of
        None \<Rightarrow> None
      | Some pr \<Rightarrow>
          if num < 0 \<or> num \<ge> int (nvals pr) then None
          else (let v = vals pr ! nat num in Some (v_name v, v_data v, v_len v)))"

fun lookup_loop :: "string \<Rightarrow> blkid_prval list \<Rightarrow> (byte list \<times> nat) option" where
  "lookup_loop name [] = None"
| "lookup_loop name (v # vs) =
     (if v_name v = Some name then Some (v_data v, v_len v) else lookup_loop name vs)"

definition blkid_probe_lookup_value ::
  "blkid_probe \<Rightarrow> string option \<Rightarrow> (byte list \<times> nat) option" where
  "blkid_probe_lookup_value p name =
     (case p of
        None \<Rightarrow> None
      | Some pr \<Rightarrow>
          (case name of
             None \<Rightarrow> None
           | Some n \<Rightarrow> if nvals pr = 0 then None else lookup_loop n (take (nvals pr) (vals pr))))"

definition blkid_probe_has_value :: "blkid_probe \<Rightarrow> string option \<Rightarrow> int" where
  "blkid_probe_has_value p name =
     (if blkid_probe_lookup_value p name \<noteq> None then 1 else 0)"

subsection \<open>The registry and the filter\<close>

text \<open>
  Modelled from the spec: the descriptors \<^verbatim>\<open>struct blkid_idinfo\<close> and
  \<^verbatim>\<open>struct blkid_idmag\<close> and the probers the array \<^verbatim>\<open>idinfos\<close> lists are defined
  outside \<^verbatim>\<open>probe.c\<close>.  A magic is a pattern, its length and its place
  (\<open>kboff\<close> kilobytes plus \<open>sboff\<close> bytes); \<open>magics\<close> is the array up to the entry
  whose pattern is \<^verbatim>\<open>NULL\<close>; a probing function works on the session, with the system
  under it, and returns its verdict.  The registry is an argument of every operation
  that walks it.
\<close>

record blkid_idmag =
  magic :: "byte list"
  len :: nat
  kboff :: int
  sboff :: "32 word"

record blkid_idinfo =
  name :: string
  usage :: "32 word"
  probefunc ::
    "(sys \<Rightarrow> blkid_struct_probe \<Rightarrow> blkid_idmag option \<Rightarrow> int \<times> blkid_struct_probe) option"
  magics :: "blkid_idmag list option"

definition blkid_bmp_wordsize :: nat where
  "blkid_bmp_wordsize = 64"

definition blkid_bmp_idx_bit :: "nat \<Rightarrow> 64 word" where
  "blkid_bmp_idx_bit item = push_bit (item mod blkid_bmp_wordsize) 1"

definition blkid_bmp_idx_byte :: "nat \<Rightarrow> nat" where
  "blkid_bmp_idx_byte item = item div blkid_bmp_wordsize"

definition blkid_bmp_set_item :: "64 word list \<Rightarrow> nat \<Rightarrow> 64 word list" where
  "blkid_bmp_set_item bmp item =
     bmp[blkid_bmp_idx_byte item := (bmp ! blkid_bmp_idx_byte item) OR blkid_bmp_idx_bit item]"

definition blkid_bmp_get_item :: "64 word list \<Rightarrow> nat \<Rightarrow> 64 word" where
  "blkid_bmp_get_item bmp item = (bmp ! blkid_bmp_idx_byte item) AND blkid_bmp_idx_bit item"

definition blkid_bmp_size :: "nat \<Rightarrow> nat" where
  "blkid_bmp_size max_items = (max_items + blkid_bmp_wordsize) div blkid_bmp_wordsize"

definition BLKID_FLTR_SIZE :: "blkid_idinfo list \<Rightarrow> nat" where
  "BLKID_FLTR_SIZE idinfos = blkid_bmp_size (length idinfos)"

definition blkid_known_fstype :: "blkid_idinfo list \<Rightarrow> string option \<Rightarrow> int" where
  "blkid_known_fstype idinfos fstype =
     (case fstype of
        None \<Rightarrow> 0
      | Some t \<Rightarrow> if list_ex (\<lambda>d. name d = t) idinfos then 1 else 0)"

definition blkid_probe_reset_filter ::
  "blkid_idinfo list \<Rightarrow> blkid_probe \<Rightarrow> int \<times> blkid_probe" where
  "blkid_probe_reset_filter idinfos p =
     (case p of
        None \<Rightarrow> (-1, None)
      | Some pr \<Rightarrow>
          (0, Some (pr\<lparr>fltr := map_option (\<lambda>f. replicate (BLKID_FLTR_SIZE idinfos) 0) (fltr pr),
                       idx := 0\<rparr>)))"

text \<open>
  The loops of the two filter constructors: \<open>mark i\<close> says whether the body sets the bit
  of item \<open>i\<close>.  The bitmap is not checked after \<^verbatim>\<open>calloc\<close>, so setting a bit in a
  bitmap that was not allocated is a store through \<^verbatim>\<open>NULL\<close>.
\<close>

fun fltr_mark ::
  "(nat \<Rightarrow> bool) \<Rightarrow> nat list \<Rightarrow> 64 word list option \<Rightarrow> fault + 64 word list option" where
  "fltr_mark mark [] f = Inr f"
| "fltr_mark mark (i # is) f =
     (if mark i then
        (case f of
           None \<Rightarrow> Inl Null_deref
         | Some bmp \<Rightarrow> fltr_mark mark is (Some (blkid_bmp_set_item bmp i)))
      else fltr_mark mark is f)"

definition sys_calloc :: "sys \<Rightarrow> nat \<Rightarrow> 64 word list option" where
  "sys_calloc s n = (if 8 * int n \<le> mem_avail s then Some (replicate n 0) else None)"

text \<open>The filter a constructor starts from: a fresh bitmap, or the old one cleared.\<close>

definition fltr_start ::
  "blkid_idinfo list \<Rightarrow> sys \<Rightarrow> blkid_struct_probe \<Rightarrow> blkid_struct_probe" where
  "fltr_start idinfos s pr =
     (case fltr pr of
        None \<Rightarrow> pr\<lparr>fltr := sys_calloc s (BLKID_FLTR_SIZE idinfos)\<rparr>
      | Some f \<Rightarrow> (case snd (blkid_probe_reset_filter idinfos (Some pr)) of
                     None \<Rightarrow> pr
                   | Some pr1 \<Rightarrow> pr1))"

definition blkid_probe_filter_types ::
  "blkid_idinfo list \<Rightarrow> sys \<Rightarrow> blkid_probe \<Rightarrow> 32 word \<Rightarrow> string list option
     \<Rightarrow> fault + int \<times> blkid_probe" where
  "blkid_probe_filter_types idinfos s p flag names =
     (case p of
        None \<Rightarrow> Inr (-1, None)
      | Some pr \<Rightarrow>
          (case names of
             None \<Rightarrow> Inr (-1, Some pr)
           | Some ns \<Rightarrow>
               (let pr1 = fltr_start idinfos s pr;
                    mark = (\<lambda>i. let has = List.member ns (name (idinfos ! i))
                                in if flag AND BLKID_FLTR_ONLYIN \<noteq> 0 then \<not> has
                                   else if flag AND BLKID_FLTR_NOTIN \<noteq> 0 then has
                                   else False)
                in (case fltr_mark mark [0 ..< length idinfos] (fltr pr1) of
                      Inl e \<Rightarrow> Inl e
                    | Inr f \<Rightarrow> Inr (0, Some (pr1\<lparr>fltr := f, idx := 0\<rparr>))))))"

definition blkid_probe_filter_usage ::
  "blkid_idinfo list \<Rightarrow> sys \<Rightarrow> blkid_probe \<Rightarrow> 32 word \<Rightarrow> 32 word
     \<Rightarrow> fault + int \<times> blkid_probe" where
  "blkid_probe_filter_usage idinfos s p flag usage' =
     (case p of
        None \<Rightarrow> Inr (-1, None)
      | Some pr \<Rightarrow>
          if usage' = 0 then Inr (-1, Some pr)
          else
            (let pr1 = fltr_start idinfos s pr;
                 mark = (\<lambda>i. if usage (idinfos ! i) AND usage' \<noteq> 0
                             then flag AND BLKID_FLTR_NOTIN \<noteq> 0
                             else flag AND BLKID_FLTR_ONLYIN \<noteq> 0)
             in (case fltr_mark mark [0 ..< length idinfos] (fltr pr1) of
                   Inl e \<Rightarrow> Inl e
                 | Inr f \<Rightarrow> Inr (0, Some (pr1\<lparr>fltr := f, idx := 0\<rparr>)))))"

definition blkid_probe_invert_filter ::
  "blkid_idinfo list \<Rightarrow> blkid_probe \<Rightarrow> int \<times> blkid_probe" where
  "blkid_probe_invert_filter idinfos p =
     (case p of
        None \<Rightarrow> (-1, None)
      | Some pr \<Rightarrow>
          (case fltr pr of
             None \<Rightarrow> (-1, Some pr)
           | Some f \<Rightarrow>
               (0, Some (pr\<lparr>fltr := Some (map NOT (take (BLKID_FLTR_SIZE idinfos) f)
                                            @ drop (BLKID_FLTR_SIZE idinfos) f),
                            idx := 0\<rparr>))))"

subsection \<open>The dispatch loop\<close>

definition ptr_add :: "bufptr \<Rightarrow> int \<Rightarrow> bufptr" where
  "ptr_add p d = (case p of In_sbbuf k \<Rightarrow> In_sbbuf (k + d) | In_buf k \<Rightarrow> In_buf (k + d))"

text \<open>
  The \<^verbatim>\<open>while (mag && mag->magic)\<close> loop over the magics of one descriptor: the magic
  it stops at (\<open>None\<close> when it ran into the closing entry) and the session, whose
  buffers the reads have changed.  \<^verbatim>\<open>int idx\<close> has 32 bits: the sum is cut to them,
  and so is \<^verbatim>\<open>idx << 10\<close>.  A comparison that would run past the end of the pattern
  or of the buffer is taken to fail.
\<close>

fun find_magic ::
  "sys \<Rightarrow> blkid_struct_probe \<Rightarrow> blkid_idmag list \<Rightarrow> blkid_idmag option \<times> blkid_struct_probe" where
  "find_magic s pr [] = (None, pr)"
| "find_magic s pr (mag # rest) =
     (let idx' = (word_of_int (kboff mag + uint (drop_bit 10 (sboff mag))) :: 32 word);
          (b, pr1) = blkid_probe_get_buffer s pr (sint (push_bit 10 idx')) 1024
      in (case b of
            None \<Rightarrow> find_magic s pr1 rest
          | Some p \<Rightarrow>
              if peek pr1 (ptr_add p (uint (sboff mag AND 0x3ff))) (len mag)
                   = Some (take (len mag) (magic mag))
              then (Some mag, pr1)
              else find_magic s pr1 rest))"

text \<open>What follows the last check: the two tags the loop itself emits.\<close>

definition probe_matched :: "blkid_idinfo \<Rightarrow> blkid_struct_probe \<Rightarrow> blkid_struct_probe" where
  "probe_matched d pr =
     (let pr1 = (if probreq pr AND BLKID_PROBREQ_TYPE \<noteq> 0
                 then snd (blkid_probe_set_value pr (Some ''TYPE'') (bytes_of (name d) @ [0]))
                 else pr)
      in (if probreq pr1 AND BLKID_PROBREQ_USAGE \<noteq> 0
          then snd (blkid_probe_set_usage pr1 (usage d))
          else pr1))"

text \<open>
  One pass through the body of the \<^verbatim>\<open>for\<close> loop, at index \<open>i\<close>: it ends in
  \<^verbatim>\<open>continue\<close> or in \<^verbatim>\<open>return 0\<close>.
\<close>

datatype probe_step = Continue blkid_struct_probe | Matched blkid_struct_probe

definition probe_body ::
  "blkid_idinfo list \<Rightarrow> sys \<Rightarrow> blkid_struct_probe \<Rightarrow> nat \<Rightarrow> probe_step" where
  "probe_body idinfos s pr i =
     (let pr1 = pr\<lparr>idx := i\<rparr>
      in if (case fltr pr1 of None \<Rightarrow> False | Some f \<Rightarrow> blkid_bmp_get_item f i \<noteq> 0)
         then Continue pr1
         else
           (let d = idinfos ! i
            in (case (case magics d of
                        None \<Rightarrow> (None, pr1)
                      | Some ms \<Rightarrow> find_magic s pr1 ms) of
                  (mag, pr2) \<Rightarrow>
                    if magics d \<noteq> None \<and> mag = None then Continue pr2
                    else
                      (case probefunc d of
                         None \<Rightarrow> Matched (probe_matched d pr2)
                       | Some f \<Rightarrow>
                           (case f s pr2 mag of
                              (rc, pr3) \<Rightarrow>
                                if rc \<noteq> 0 then Continue pr3
                                else Matched (probe_matched d pr3))))))"

text \<open>The \<^verbatim>\<open>for\<close> loop, from index \<open>i\<close> on.\<close>

function probe_loop ::
  "blkid_idinfo list \<Rightarrow> sys \<Rightarrow> blkid_struct_probe \<Rightarrow> nat \<Rightarrow> int \<times> blkid_struct_probe" where
  "probe_loop idinfos s pr i =
     (if i < length idinfos then
        (case probe_body idinfos s pr i of
           Continue pr' \<Rightarrow> probe_loop idinfos s pr' (i + 1)
         | Matched pr' \<Rightarrow> (0, pr'))
      else (1, pr))"
  by pat_completeness auto
termination
  by (relation "measure (\<lambda>(idinfos, s, pr, i). length idinfos - i)") auto

declare probe_loop.simps [simp del]

text \<open>
  \<^verbatim>\<open>blkid_do_probe\<close>.  The index computed from the cursor, \<open>i0\<close>, is the one the
  source assigns before the \<^verbatim>\<open>for\<close> statement; the initialiser of that statement
  then sets \<open>i\<close> to 0, and the loop runs from there.
\<close>

definition blkid_do_probe ::
  "blkid_idinfo list \<Rightarrow> sys \<Rightarrow> blkid_probe \<Rightarrow> int \<times> blkid_probe" where
  "blkid_do_probe idinfos s p =
     (case p of
        None \<Rightarrow> (-1, None)
      | Some pr \<Rightarrow>
          (let pr1 = blkid_probe_reset_vals pr;
               i0 = (if idx pr1 \<noteq> 0 then idx pr1 + 1 else 0);
               i = 0
           in (case probe_loop idinfos s pr1 i of (rc, pr2) \<Rightarrow> (rc, Some pr2))))"

text \<open>
  The caller's loop \<^verbatim>\<open>while (blkid_do_probe(pr) == 0) ...\<close> of the source's comment,
  observed for \<open>n\<close> calls whatever they return: the return code of each call and the
  cursor it leaves.
\<close>

fun do_probe_calls ::
  "blkid_idinfo list \<Rightarrow> sys \<Rightarrow> blkid_probe \<Rightarrow> nat \<Rightarrow> (int \<times> nat option) list" where
  "do_probe_calls idinfos s p 0 = []"
| "do_probe_calls idinfos s p (Suc n) =
     (case blkid_do_probe idinfos s p of
        (rc, p') \<Rightarrow> (rc, map_option idx p') # do_probe_calls idinfos s p' n)"

text \<open>
  Two observations of the run of the loop from index \<open>i\<close> on, up to the pass that ends
  in \<^verbatim>\<open>return 0\<close> or to the end of the registry.  \<open>tidy_run\<close>: every pass that ended
  in \<^verbatim>\<open>continue\<close> left the number of tags as it found it.  \<open>left_behind\<close>: the tags
  those passes left, counted (a pass that took tags away counts negative).
\<close>

function tidy_run :: "blkid_idinfo list \<Rightarrow> sys \<Rightarrow> blkid_struct_probe \<Rightarrow> nat \<Rightarrow> bool" where
  "tidy_run idinfos s pr i =
     (if i < length idinfos then
        (case probe_body idinfos s pr i of
           Continue pr' \<Rightarrow> nvals pr' = nvals pr \<and> tidy_run idinfos s pr' (i + 1)
         | Matched pr' \<Rightarrow> True)
      else True)"
  by pat_completeness auto
termination
  by (relation "measure (\<lambda>(idinfos, s, pr, i). length idinfos - i)") auto

declare tidy_run.simps [simp del]

function left_behind :: "blkid_idinfo list \<Rightarrow> sys \<Rightarrow> blkid_struct_probe \<Rightarrow> nat \<Rightarrow> int" where
  "left_behind idinfos s pr i =
     (if i < length idinfos then
        (case probe_body idinfos s pr i of
           Continue pr' \<Rightarrow> (int (nvals pr') - int (nvals pr)) + left_behind idinfos s pr' (i + 1)
         | Matched pr' \<Rightarrow> 0)
      else 0)"
  by pat_completeness auto
termination
  by (relation "measure (\<lambda>(idinfos, s, pr, i). length idinfos - i)") auto

declare left_behind.simps [simp del]

section \<open>Well-formed sessions and sample inputs\<close>

text \<open>
  What the buffer fields of a session satisfy from \<^verbatim>\<open>calloc\<close> on.  The superblock
  buffer has \<open>BLKID_SB_BUFSIZ\<close> bytes, holds no more bytes than that, and holds none
  while it is not allocated.  The general buffer has as many bytes as its capacity says,
  and no capacity while it is not allocated; its cached window starts at an offset that
  is not negative, is no longer than the capacity, and ends inside the 64-bit range.
\<close>

definition bufs_wf :: "blkid_struct_probe \<Rightarrow> bool" where
  "bufs_wf pr =
     ((case sbbuf pr of
         None \<Rightarrow> sbbuf_len pr = 0
       | Some b \<Rightarrow> int (length b) = BLKID_SB_BUFSIZ \<and> 0 \<le> sbbuf_len pr
                   \<and> sbbuf_len pr \<le> BLKID_SB_BUFSIZ) \<and>
      (case buf pr of None \<Rightarrow> buf_max pr = 0 | Some b \<Rightarrow> int (length b) = buf_max pr) \<and>
      0 \<le> buf_off pr \<and> 0 \<le> buf_len pr \<and> buf_len pr \<le> buf_max pr \<and>
      buf_off pr + buf_len pr < 2 ^ 63)"

text \<open>Readable files of 8, 256 and 1024 bytes.\<close>

definition dev8 :: sys where
  "dev8 = \<lparr>file_data = [1, 2, 3, 4, 5, 6, 7, 8], seek_ok = True, read_ok = True,
           blk_size = Some 8, mem_avail = 0x100000\<rparr>"

definition dev256 :: sys where
  "dev256 = \<lparr>file_data = replicate 256 0x41, seek_ok = True, read_ok = True, blk_size = Some 256, mem_avail = 0x100000\<rparr>"

definition dev1k :: sys where
  "dev1k = \<lparr>file_data = replicate 1024 0x41, seek_ok = True, read_ok = True, blk_size = Some 1024, mem_avail = 0x100000\<rparr>"

text \<open>
  The tag store as \<^verbatim>\<open>calloc\<close> and \<^verbatim>\<open>blkid_probe_reset_vals\<close> leave its shape: the
  array has \<open>BLKID_PROBVAL_NVALS\<close> entries, each with \<open>BLKID_PROBVAL_BUFSIZ\<close> bytes.
\<close>

definition vals_wf :: "blkid_struct_probe \<Rightarrow> bool" where
  "vals_wf pr =
     (length (vals pr) = BLKID_PROBVAL_NVALS \<and>
      list_all (\<lambda>e. length (v_data e) = BLKID_PROBVAL_BUFSIZ) (vals pr))"

text \<open>
  The specification's words for the value of \<open>LABEL\<close>: the string a NUL-terminated
  copy of the input holds, with the white space at its end removed.
\<close>

definition c_string :: "byte list \<Rightarrow> byte list" where
  "c_string bs = takeWhile (\<lambda>c. c \<noteq> 0) bs"

definition strip_trailing :: "byte list \<Rightarrow> byte list" where
  "strip_trailing bs = rev (dropWhile isspace (rev bs))"

text \<open>A UUID, a full tag store, and sessions that request \<open>UUID\<close>, or both label tags.\<close>

definition uuid1 :: "byte list" where
  "uuid1 = [0x01, 0x23, 0x45, 0x67, 0x89, 0xab, 0xcd, 0xef, 0xfe, 0xdc, 0xba, 0x98, 0x76, 0x54, 0x32, 0x10]"

definition full_probe :: blkid_struct_probe where
  "full_probe = zero_probe\<lparr>nvals := BLKID_PROBVAL_NVALS, probreq := BLKID_PROBREQ_UUID\<rparr>"

definition uuid_probe :: blkid_struct_probe where
  "uuid_probe = zero_probe\<lparr>probreq := BLKID_PROBREQ_UUID\<rparr>"

definition label_probe :: blkid_struct_probe where
  "label_probe = zero_probe\<lparr>probreq := BLKID_PROBREQ_LABEL OR BLKID_PROBREQ_LABELRAW\<rparr>"

text \<open>
  Probers for the dispatch loop: one that always rejects, two that accept whatever is on
  the device (no magic, no probing function), and one that emits a tag and then rejects.
\<close>

definition reject_prober :: blkid_idinfo where
  "reject_prober =
     \<lparr>name = ''never'', usage = BLKID_USAGE_OTHER,
      probefunc = Some (\<lambda>s pr mag. (1, pr)), magics = None\<rparr>"

definition first_prober :: blkid_idinfo where
  "first_prober =
     \<lparr>name = ''first'', usage = BLKID_USAGE_FILESYSTEM, probefunc = None, magics = None\<rparr>"

definition second_prober :: blkid_idinfo where
  "second_prober =
     \<lparr>name = ''second'', usage = BLKID_USAGE_FILESYSTEM, probefunc = None, magics = None\<rparr>"

definition leaky_prober :: blkid_idinfo where
  "leaky_prober =
     \<lparr>name = ''leaky'', usage = BLKID_USAGE_FILESYSTEM,
      probefunc = Some (\<lambda>s pr mag. (1, snd (blkid_probe_set_value pr (Some ''SEC_TYPE'') [0x78, 0]))),
      magics = None\<rparr>"

text \<open>One that emits a tag before it rejects only when the device cannot be read.\<close>

definition cond_leaky_prober :: blkid_idinfo where
  "cond_leaky_prober =
     \<lparr>name = ''cond_leaky'', usage = BLKID_USAGE_FILESYSTEM,
      probefunc = Some (\<lambda>s pr mag.
        if read_ok s then (1, pr)
        else (1, snd (blkid_probe_set_value pr (Some ''SEC_TYPE'') [0x78, 0]))),
      magics = None\<rparr>"

definition type_probe :: blkid_struct_probe where
  "type_probe = zero_probe\<lparr>probreq := BLKID_PROBREQ_TYPE\<rparr>"

definition registry3 :: "blkid_idinfo list" where
  "registry3 = [reject_prober, first_prober, second_prober]"

section \<open>Properties\<close>

subsection \<open>Inverting a filter that was never installed\<close>

lemma new_probe_no_filter: "blkid_new_probe s = Some pr \<Longrightarrow> fltr pr = None"
  by (auto simp: blkid_new_probe_def zero_probe_def split: if_splits)

lemma set_request_keeps_filter:
  "blkid_probe_set_request (Some pr) flags = (rc, Some pr') \<Longrightarrow> fltr pr' = fltr pr"
  by (auto simp: blkid_probe_set_request_def)

lemma reset_filter_keeps_no_filter:
  "blkid_probe_reset_filter idinfos (Some pr) = (rc, Some pr') \<Longrightarrow> fltr pr = None \<Longrightarrow> fltr pr' = None"
  by (auto simp: blkid_probe_reset_filter_def)

lemma get_buffer_keeps_filter: "fltr (snd (blkid_probe_get_buffer s pr ofs n)) = fltr pr"
proof -
  have a: "sb_alloc s q = Some q' \<Longrightarrow> fltr q' = fltr q" for q q'
    by (auto simp: sb_alloc_def split: option.splits)
  have b: "sb_fill s q = Some q' \<Longrightarrow> fltr q' = fltr q" for q q'
    by (cases "sys_read s (off q) BLKID_SB_BUFSIZ") (auto simp: sb_fill_def Let_def split: if_splits)
  have c: "buf_grow s q n = Some (nb, q') \<Longrightarrow> fltr q' = fltr q" for q nb q'
    by (auto simp: buf_grow_def split: option.splits if_splits)
  have d: "fltr (snd (buf_read s q ofs n)) = fltr q" for q
    by (cases "sys_read s (wrap64 (off q + ofs)) n")
       (simp add: buf_read_def buf_ptr_def Let_def split: option.splits)
  have e: "fltr (snd (buf_ptr q ofs)) = fltr q" for q
    by (simp add: buf_ptr_def split: option.splits)
  show ?thesis
    by (auto simp: blkid_probe_get_buffer_def d e split: option.splits dest!: a b c)
qed

lemma set_device_keeps_filter:
  assumes "blkid_probe_set_device s (Some pr) fd' off' size' = (rc, Some pr')"
  shows "fltr pr' = fltr pr"
proof -
  define pr3 where "pr3 = (let pr2 = reset_probe_body pr\<lparr>fd := fd', off := off'\<rparr>
        in if size' = 0 then (case blk_size s of None \<Rightarrow> pr2 | Some k \<Rightarrow> pr2\<lparr>dev_size := k\<rparr>)
           else pr2\<lparr>dev_size := size'\<rparr>)"
  have f3: "fltr pr3 = fltr pr"
    by (simp add: pr3_def reset_probe_body_def blkid_probe_reset_vals_def Let_def
        split: option.splits)
  obtain b pr4 where g: "blkid_probe_get_buffer s pr3 0 0x200 = (b, pr4)"
    by (cases "blkid_probe_get_buffer s pr3 0 0x200")
  have f4: "fltr pr4 = fltr pr3" using get_buffer_keeps_filter [of s pr3 0 "0x200"] g by simp
  have "pr' = pr4 \<or> pr' = pr4\<lparr>idx := 0\<rparr>"
    using assms g by (cases b) (auto simp: blkid_probe_set_device_def pr3_def Let_def)
  then show ?thesis using f3 f4 by auto
qed

text \<open>
  C10.  A session whose filter bitmap was never allocated (no call of
  \<^verbatim>\<open>blkid_probe_filter_types\<close> or \<^verbatim>\<open>blkid_probe_filter_usage\<close> has installed one, so
  \<^verbatim>\<open>pr->fltr\<close> is still \<^verbatim>\<open>NULL\<close>) makes \<^verbatim>\<open>blkid_probe_invert_filter\<close> return -1 and
  leaves the session as it was: no bitmap appears, and the cursor is not reset.
\<close>

theorem invert_filter_without_filter:
  "fltr pr = None \<Longrightarrow> blkid_probe_invert_filter idinfos (Some pr) = (-1, Some pr)"
  by (simp add: blkid_probe_invert_filter_def)

theorem invert_filter_without_filter_witness:
  "fltr (zero_probe\<lparr>idx := 5\<rparr>) = None \<and>
   blkid_probe_invert_filter [] (Some (zero_probe\<lparr>idx := 5\<rparr>)) = (-1, Some (zero_probe\<lparr>idx := 5\<rparr>))"
  using invert_filter_without_filter [of "zero_probe\<lparr>idx := 5\<rparr>" "[]"]
  by (simp add: zero_probe_def)

subsection \<open>UUIDs that are all zero\<close>

lemma uuid_is_empty_all_zero: "\<forall>b\<in>set u. b = 0 \<Longrightarrow> uuid_is_empty u k"
  by (auto simp: uuid_is_empty_def list_all_iff dest: in_set_takeD)

text \<open>
  C7.  When every byte of the UUID handed in is zero, \<^verbatim>\<open>blkid_probe_set_uuid_as\<close> (with
  or without a name), \<^verbatim>\<open>blkid_probe_set_uuid\<close> and \<^verbatim>\<open>blkid_probe_sprintf_uuid\<close> return
  0 and leave the session, and so the tag store, untouched, whatever the probe-request
  mask is: neither \<open>UUID\<close> nor \<open>UUID_RAW\<close> is appended.
\<close>

theorem zero_uuid_emits_nothing:
  "\<forall>b\<in>set uuid. b = 0 \<Longrightarrow>
     blkid_probe_set_uuid_as pr uuid nm = Inr (0, pr) \<and>
     blkid_probe_set_uuid pr uuid = Inr (0, pr) \<and>
     blkid_probe_sprintf_uuid pr uuid fmt ap = Inr (0, pr)"
  by (simp add: blkid_probe_set_uuid_as_def blkid_probe_set_uuid_def
      blkid_probe_sprintf_uuid_def uuid_is_empty_all_zero)

theorem zero_uuid_emits_nothing_witness:
  "set (replicate 16 (0::byte)) = {0} \<and>
   blkid_probe_set_uuid_as (zero_probe\<lparr>probreq := 24\<rparr>) (replicate 16 0) (Some ''EXT_JOURNAL'')
     = Inr (0, zero_probe\<lparr>probreq := 24\<rparr>) \<and>
   blkid_probe_set_uuid (zero_probe\<lparr>probreq := 24\<rparr>) (replicate 16 0)
     = Inr (0, zero_probe\<lparr>probreq := 24\<rparr>) \<and>
   blkid_probe_sprintf_uuid (zero_probe\<lparr>probreq := 24\<rparr>) (replicate 16 0) ''%s''
       \<lparr>va_str = Some [0x41], va_out = [0x41]\<rparr>
     = Inr (0, zero_probe\<lparr>probreq := 24\<rparr>)"
  using zero_uuid_emits_nothing [of "replicate 16 0" "zero_probe\<lparr>probreq := 24\<rparr>"
      "Some ''EXT_JOURNAL''" "''%s''" "\<lparr>va_str = Some [0x41], va_out = [0x41]\<rparr>"]
  by simp

subsection \<open>The buffer cache\<close>

lemma wrap64_id: "- (2 ^ 63) \<le> x \<Longrightarrow> x < 2 ^ 63 \<Longrightarrow> wrap64 x = x"
  by (simp add: wrap64_def signed_take_bit_int_eq_self)

lemma length_store_at0 [simp]: "length (store_at0 b d) = length b"
  by (simp add: store_at0_def)

lemma store_at0_fits: "length d \<le> length b \<Longrightarrow> store_at0 b d = d @ drop (length d) b"
  by (simp add: store_at0_def)

lemma slice_Some:
  "0 \<le> k \<Longrightarrow> nat k + n \<le> length b \<Longrightarrow> slice b k n = Some (take n (drop (nat k) b))"
  by (simp add: slice_def)

lemma peek_before_start: "k < 0 \<Longrightarrow> peek pr (In_sbbuf k) n = None"
  by (simp add: peek_def slice_def split: option.splits)

lemma get_buffer_sb:
  "wrap64 (ofs + n) = ofs + n \<Longrightarrow> ofs + n \<le> BLKID_SB_BUFSIZ \<Longrightarrow>
   blkid_probe_get_buffer s pr ofs n =
     (case sb_alloc s pr of
        None \<Rightarrow> (None, pr)
      | Some pr1 \<Rightarrow>
          (case sb_fill s pr1 of
             None \<Rightarrow> (None, pr1)
           | Some pr2 \<Rightarrow>
               if ofs + n > sbbuf_len pr2 then (None, pr2) else (Some (In_sbbuf ofs), pr2)))"
  by (simp add: blkid_probe_get_buffer_def cong: option.case_cong)

lemma sb_alloc_None: "(sb_alloc s pr = None) = (sbbuf pr = None \<and> \<not> BLKID_SB_BUFSIZ \<le> mem_avail s)"
  by (simp add: sb_alloc_def sys_malloc_def split: option.splits)

lemma sb_alloc_Some:
  "sb_alloc s pr = Some pr1 \<Longrightarrow>
     sbbuf_len pr1 = sbbuf_len pr \<and> off pr1 = off pr \<and> sbbuf pr1 \<noteq> None \<and>
     (sbbuf pr \<noteq> None \<longrightarrow> pr1 = pr) \<and>
     (sbbuf pr = None \<longrightarrow> pr1 = pr\<lparr>sbbuf := Some (replicate (nat BLKID_SB_BUFSIZ) 0)\<rparr>)"
  by (auto simp: sb_alloc_def sys_malloc_def split: option.splits if_splits)

lemma sb_fill_None: "(sb_fill s pr = None) = (sbbuf_len pr = 0 \<and> sys_lseek s (off pr) < 0)"
  by (cases "sys_read s (off pr) BLKID_SB_BUFSIZ") (simp add: sb_fill_def Let_def)

lemma sb_fill_filled: "sbbuf_len pr \<noteq> 0 \<Longrightarrow> sb_fill s pr = Some pr"
  by (simp add: sb_fill_def)

lemma sb_fill_fresh:
  "sbbuf_len pr = 0 \<Longrightarrow> 0 \<le> sys_lseek s (off pr) \<Longrightarrow>
   sb_fill s pr = Some (pr\<lparr>sbbuf := map_option (\<lambda>b. store_at0 b (snd (sys_read s (off pr) BLKID_SB_BUFSIZ))) (sbbuf pr),
                          sbbuf_len := max 0 (fst (sys_read s (off pr) BLKID_SB_BUFSIZ))\<rparr>)"
  by (cases "sys_read s (off pr) BLKID_SB_BUFSIZ") (simp add: sb_fill_def Let_def max_def)

text \<open>The length of the filled part after a request of the first tier.\<close>

lemma get_buffer_sb_len:
  assumes "wrap64 (ofs + n) = ofs + n" "ofs + n \<le> BLKID_SB_BUFSIZ"
  shows "sbbuf_len (snd (blkid_probe_get_buffer s pr ofs n)) =
     (if sbbuf_len pr = 0 \<and> (sbbuf pr \<noteq> None \<or> BLKID_SB_BUFSIZ \<le> mem_avail s) \<and> 0 \<le> sys_lseek s (off pr)
      then max 0 (fst (sys_read s (off pr) BLKID_SB_BUFSIZ)) else sbbuf_len pr)"
proof (cases "sb_alloc s pr")
  case None
  have no: "sbbuf pr = None" "\<not> BLKID_SB_BUFSIZ \<le> mem_avail s"
    using None by (simp_all add: sb_alloc_None)
  show ?thesis using assms None no by (simp add: get_buffer_sb)
next
  case (Some pr1)
  note al = sb_alloc_Some [OF Some]
  have ok: "sbbuf pr \<noteq> None \<or> BLKID_SB_BUFSIZ \<le> mem_avail s"
    using Some sb_alloc_None [of s pr] by auto
  show ?thesis
  proof (cases "sbbuf_len pr = 0")
    case False
    then show ?thesis using assms Some al by (simp add: get_buffer_sb sb_fill_filled)
  next
    case True
    show ?thesis
    proof (cases "0 \<le> sys_lseek s (off pr)")
      case True
      with \<open>sbbuf_len pr = 0\<close> assms Some al ok show ?thesis
        by (simp add: get_buffer_sb sb_fill_fresh)
    next
      case False
      then have "sb_fill s pr1 = None" using al \<open>sbbuf_len pr = 0\<close> by (simp add: sb_fill_None)
      with False \<open>sbbuf_len pr = 0\<close> assms Some al show ?thesis
        by (simp add: get_buffer_sb)
    qed
  qed
qed

lemma get_buffer_sb_None_iff:
  assumes "wrap64 (ofs + n) = ofs + n" "ofs + n \<le> BLKID_SB_BUFSIZ"
  shows "(fst (blkid_probe_get_buffer s pr ofs n) = None) =
     (\<not> (sbbuf pr \<noteq> None \<or> BLKID_SB_BUFSIZ \<le> mem_avail s)
      \<or> (sbbuf_len pr = 0 \<and> sys_lseek s (off pr) < 0)
      \<or> sbbuf_len (snd (blkid_probe_get_buffer s pr ofs n)) < ofs + n)"
proof (cases "sb_alloc s pr")
  case None
  have no: "sbbuf pr = None" "\<not> BLKID_SB_BUFSIZ \<le> mem_avail s"
    using None by (simp_all add: sb_alloc_None)
  show ?thesis using assms None no by (simp add: get_buffer_sb)
next
  case (Some pr1)
  note al = sb_alloc_Some [OF Some]
  have ok: "sbbuf pr \<noteq> None \<or> BLKID_SB_BUFSIZ \<le> mem_avail s"
    using Some sb_alloc_None [of s pr] by auto
  show ?thesis
  proof (cases "sb_fill s pr1")
    case None
    have "sbbuf_len pr = 0 \<and> sys_lseek s (off pr) < 0"
      using None al by (simp add: sb_fill_None)
    then show ?thesis using assms Some None by (simp add: get_buffer_sb)
  next
    case (Some pr2)
    then have "\<not> (sbbuf_len pr = 0 \<and> sys_lseek s (off pr) < 0)"
      using sb_fill_None [of s pr1] al by auto
    then show ?thesis using assms Some \<open>sb_alloc s pr = Some pr1\<close> ok
      by (auto simp: get_buffer_sb)
  qed
qed

lemma get_buffer_sb_filled:
  "wrap64 (ofs + n) = ofs + n \<Longrightarrow> ofs + n \<le> BLKID_SB_BUFSIZ \<Longrightarrow> sbbuf pr \<noteq> None \<Longrightarrow>
   sbbuf_len pr \<noteq> 0 \<Longrightarrow> snd (blkid_probe_get_buffer s pr ofs n) = pr"
  by (auto simp: get_buffer_sb sb_alloc_def sb_fill_filled)

lemma get_buffer_sb_ptr:
  "wrap64 (ofs + n) = ofs + n \<Longrightarrow> ofs + n \<le> BLKID_SB_BUFSIZ \<Longrightarrow>
   fst (blkid_probe_get_buffer s pr ofs n) = Some p \<Longrightarrow> p = In_sbbuf ofs"
  by (auto simp: get_buffer_sb split: option.splits if_splits)

lemma take_drop_take_window:
  "a + k \<le> m \<Longrightarrow> take k (drop a (take m xs)) = take k (drop a xs)"
  by (simp add: drop_take min_def)

lemma store_at0_peek:
  "length d \<le> length b \<Longrightarrow> a + k \<le> length d \<Longrightarrow>
   take k (drop a (store_at0 b d)) = take k (drop a d)"
  by (simp add: store_at0_fits)

lemma sys_read_count:
  "0 \<le> fst (sys_read s pos m) \<Longrightarrow> fst (sys_read s pos m) = int (length (snd (sys_read s pos m)))"
  by (simp add: sys_read_def Let_def split: if_splits)

lemma sys_read_data:
  "0 < fst (sys_read s pos m) \<Longrightarrow> snd (sys_read s pos m) = take (nat m) (drop (nat pos) (file_data s))"
  by (simp add: sys_read_def Let_def split: if_splits)

lemma sys_read_length: "0 \<le> m \<Longrightarrow> fst (sys_read s pos m) \<le> m \<and> int (length (snd (sys_read s pos m))) \<le> m"
  by (auto simp: sys_read_def Let_def min_def)

lemma get_buffer_sb_fresh_content:
  assumes w: "wrap64 (ofs + n) = ofs + n" and le: "ofs + n \<le> BLKID_SB_BUFSIZ"
    and fresh: "sbbuf_len pr = 0"
    and pos: "0 \<le> ofs" "0 < n" and wf: "bufs_wf pr"
    and res: "blkid_probe_get_buffer s pr ofs n = (Some p, pr')"
  shows "peek pr' p (nat n) = Some (take (nat n) (drop (nat (off pr + ofs)) (file_data s)))
         \<and> length (take (nat n) (drop (nat (off pr + ofs)) (file_data s))) = nat n"
proof -
  obtain pr1 where al: "sb_alloc s pr = Some pr1"
    using res w le by (cases "sb_alloc s pr") (auto simp: get_buffer_sb)
  note a = sb_alloc_Some [OF al]
  have seek: "0 \<le> sys_lseek s (off pr)"
  proof (rule ccontr)
    assume "\<not> 0 \<le> sys_lseek s (off pr)"
    then have "sb_fill s pr1 = None" using a fresh by (simp add: sb_fill_None)
    then show False using res w le al by (simp add: get_buffer_sb)
  qed
  then have off0: "0 \<le> off pr" by (simp add: sys_lseek_def split: if_splits)
  define d where "d = snd (sys_read s (off pr) BLKID_SB_BUFSIZ)"
  define c where "c = fst (sys_read s (off pr) BLKID_SB_BUFSIZ)"
  obtain b where b: "sbbuf pr1 = Some b" using a by auto
  have lb: "length b = nat BLKID_SB_BUFSIZ"
  proof (cases "sbbuf pr")
    case None then show ?thesis using a b by auto
  next
    case (Some b0) then show ?thesis using a b wf by (simp add: bufs_wf_def BLKID_SB_BUFSIZ_def)
  qed
  have fill: "sb_fill s pr1 = Some (pr1\<lparr>sbbuf := Some (store_at0 b d), sbbuf_len := max 0 c\<rparr>)"
    using sb_fill_fresh [of pr1 s] a fresh seek b by (simp add: d_def c_def)
  have cov: "ofs + n \<le> max 0 c" and p: "p = In_sbbuf ofs"
    and pr': "pr' = pr1\<lparr>sbbuf := Some (store_at0 b d), sbbuf_len := max 0 c\<rparr>"
    using res w le al fill by (auto simp: get_buffer_sb split: if_splits)
  have cpos: "0 < c" using cov pos by simp
  have clen: "c = int (length d)" using cpos sys_read_count [of s "off pr" BLKID_SB_BUFSIZ]
    by (simp add: c_def d_def)
  have dd: "d = take (nat BLKID_SB_BUFSIZ) (drop (nat (off pr)) (file_data s))"
    using cpos sys_read_data [of s "off pr" BLKID_SB_BUFSIZ] by (simp add: c_def d_def)
  have ld: "length d \<le> length b" unfolding dd lb by simp
  have in_d: "nat ofs + nat n \<le> length d" using cov clen pos by simp
  have in_w: "nat ofs + nat n \<le> nat BLKID_SB_BUFSIZ" using le pos by simp
  have in_b: "nat ofs + nat n \<le> length (store_at0 b d)" using in_w lb by simp
  have pk: "peek pr' p (nat n) = Some (take (nat n) (drop (nat ofs) (store_at0 b d)))"
    using slice_Some [OF pos(1) in_b] by (simp add: peek_def p pr')
  have st: "take (nat n) (drop (nat ofs) (store_at0 b d)) = take (nat n) (drop (nat ofs) d)"
    by (rule store_at0_peek [OF ld in_d])
  have "take (nat n) (drop (nat ofs) d)
          = take (nat n) (drop (nat ofs) (drop (nat (off pr)) (file_data s)))"
    unfolding dd by (rule take_drop_take_window [OF in_w])
  also have "\<dots> = take (nat n) (drop (nat (off pr + ofs)) (file_data s))"
    using off0 pos by (simp add: nat_add_distrib add.commute)
  finally have ch: "take (nat n) (drop (nat ofs) d)
          = take (nat n) (drop (nat (off pr + ofs)) (file_data s))" .
  have len: "length (take (nat n) (drop (nat ofs) d)) = nat n" using in_d by simp
  show ?thesis using pk len unfolding st ch by blast
qed

text \<open>A served request of the first tier points at \<open>n\<close> bytes inside the buffer.\<close>

lemma get_buffer_sb_inside:
  assumes w: "wrap64 (ofs + n) = ofs + n" and le: "ofs + n \<le> BLKID_SB_BUFSIZ"
    and wf: "bufs_wf pr" and pos: "0 \<le> ofs" "0 \<le> n"
    and res: "blkid_probe_get_buffer s pr ofs n = (Some p, pr')"
  shows "\<exists>bs. peek pr' p (nat n) = Some bs \<and> length bs = nat n"
proof -
  obtain pr1 where al: "sb_alloc s pr = Some pr1"
    using res w le by (cases "sb_alloc s pr") (auto simp: get_buffer_sb)
  note a = sb_alloc_Some [OF al]
  obtain pr2 where fl: "sb_fill s pr1 = Some pr2"
    using res w le al by (cases "sb_fill s pr1") (auto simp: get_buffer_sb)
  have r: "p = In_sbbuf ofs" "pr' = pr2"
    using res w le al fl by (auto simp: get_buffer_sb split: if_splits)
  obtain b where b: "sbbuf pr1 = Some b" using a by auto
  have lb: "length b = nat BLKID_SB_BUFSIZ"
  proof (cases "sbbuf pr")
    case None then show ?thesis using a b by auto
  next
    case (Some b0) then show ?thesis using a b wf by (simp add: bufs_wf_def BLKID_SB_BUFSIZ_def)
  qed
  obtain b2 where b2: "sbbuf pr2 = Some b2" "length b2 = length b"
    using fl b
    by (cases "sys_read s (off pr1) BLKID_SB_BUFSIZ")
       (auto simp: sb_fill_def Let_def split: if_splits)
  have in_b: "nat ofs + nat n \<le> length b2" using le pos lb b2 by simp
  show ?thesis using slice_Some [OF pos(1) in_b] r b2 in_b by (simp add: peek_def)
qed

lemma buf_grow_fits: "n \<le> buf_max pr \<Longrightarrow> buf_grow s pr n = Some (False, pr)"
  by (simp add: buf_grow_def)

lemma buf_grow_fails: "buf_max pr < n \<Longrightarrow> \<not> n \<le> mem_avail s \<Longrightarrow> buf_grow s pr n = None"
  by (simp add: buf_grow_def sys_realloc_def)

lemma sys_realloc_ok:
  "n \<le> mem_avail s \<Longrightarrow> \<exists>nb. length nb = nat n \<and> sys_realloc s b n = Some nb"
  by (simp add: sys_realloc_def)

lemma buf_grow_grows:
  "buf_max pr < n \<Longrightarrow> n \<le> mem_avail s \<Longrightarrow>
   \<exists>nb. length nb = nat n \<and>
     buf_grow s pr n = Some (True, pr\<lparr>buf := Some nb, buf_max := n, buf_off := 0, buf_len := 0\<rparr>)"
  using sys_realloc_ok [of n s "buf pr"] by (auto simp: buf_grow_def)

lemma get_buffer_gen:
  "wrap64 (ofs + n) = ofs + n \<Longrightarrow> \<not> ofs + n \<le> BLKID_SB_BUFSIZ \<Longrightarrow>
   blkid_probe_get_buffer s pr ofs n =
     (case buf_grow s pr n of
        None \<Rightarrow> (None, pr)
      | Some (newbuf, pr1) \<Rightarrow>
          if newbuf \<or> ofs < buf_off pr1 \<or> ofs + n > wrap64 (buf_off pr1 + buf_len pr1)
          then buf_read s pr1 ofs n
          else buf_ptr pr1 ofs)"
  by (auto simp: blkid_probe_get_buffer_def split: option.splits)

lemma bufs_wf_window: "bufs_wf pr \<Longrightarrow> wrap64 (buf_off pr + buf_len pr) = buf_off pr + buf_len pr"
  by (rule wrap64_id) (simp_all add: bufs_wf_def)

lemma buf_read_short:
  "wrap64 (off pr1 + ofs) = off pr1 + ofs \<Longrightarrow> fst (sys_read s (off pr1 + ofs) n) \<noteq> n \<Longrightarrow>
   fst (buf_read s pr1 ofs n) = None"
  by (cases "sys_read s (off pr1 + ofs) n") (simp add: buf_read_def Let_def)

lemma buf_read_buf_max: "buf_max (snd (buf_read s pr1 ofs n)) = buf_max pr1"
  by (cases "sys_read s (wrap64 (off pr1 + ofs)) n")
     (simp add: buf_read_def buf_ptr_def Let_def split: option.splits)

lemma buf_read_Some:
  assumes br: "buf_read s pr1 ofs n = (Some p, pr')" and n0: "0 \<le> n"
    and w: "wrap64 (off pr1 + ofs) = off pr1 + ofs"
    and cap: "\<And>b. buf pr1 = Some b \<Longrightarrow> n \<le> int (length b)"
  shows "p = In_buf 0 \<and> buf_off pr' = ofs \<and> buf_len pr' = n \<and>
         peek pr' p (nat n) = Some (take (nat n) (drop (nat (off pr1 + ofs)) (file_data s))) \<and>
         length (take (nat n) (drop (nat (off pr1 + ofs)) (file_data s))) = nat n"
proof -
  define d where "d = snd (sys_read s (off pr1 + ofs) n)"
  obtain r d0 where rd: "sys_read s (off pr1 + ofs) n = (r, d0)"
    by (cases "sys_read s (off pr1 + ofs) n")
  have seek: "\<not> sys_lseek s (off pr1 + ofs) < 0"
    using br w by (auto simp: buf_read_def)
  have full: "r = n"
    using br w seek rd by (auto simp: buf_read_def Let_def split: if_splits)
  have d: "d = d0" using rd by (simp add: d_def)
  obtain b where b: "buf pr1 = Some b"
    using br w seek full rd by (cases "buf pr1") (auto simp: buf_read_def buf_ptr_def Let_def)
  have z: "wrap64 0 = 0" by (simp add: wrap64_def)
  have pr': "pr' = pr1\<lparr>buf := Some (store_at0 b d), buf_off := ofs, buf_len := n\<rparr>" and p: "p = In_buf 0"
    using br w seek full b rd d z by (auto simp: buf_read_def buf_ptr_def Let_def)
  have full: "fst (sys_read s (off pr1 + ofs) n) = n" using rd full by simp
  have len: "int (length d) = n" using full sys_read_count [of s "off pr1 + ofs" n] n0
    by (simp add: d_def)
  have dd: "d = take (nat n) (drop (nat (off pr1 + ofs)) (file_data s))"
  proof (cases "n = 0")
    case True then show ?thesis using len by simp
  next
    case False
    then show ?thesis using sys_read_data [of s "off pr1 + ofs" n] full n0 by (simp add: d_def)
  qed
  have ld: "length d \<le> length b" using cap [OF b] len by simp
  have in_b: "nat 0 + nat n \<le> length (store_at0 b d)" using cap [OF b] by simp
  have "peek pr' p (nat n) = Some (take (nat n) (drop (nat 0) (store_at0 b d)))"
    using slice_Some [OF order_refl in_b] by (simp add: peek_def p pr')
  also have "take (nat n) (drop (nat 0) (store_at0 b d)) = d"
    using len ld by (simp add: store_at0_fits)
  finally have pk: "peek pr' p (nat n) = Some d" .
  show ?thesis using pk dd len p pr' by auto
qed

text \<open>A window inside the cached one is served from the buffer, without a read.\<close>

lemma get_buffer_gen_cached:
  assumes w: "wrap64 (ofs + n) = ofs + n" and big: "\<not> ofs + n \<le> BLKID_SB_BUFSIZ"
    and wf: "bufs_wf pr" and pos: "0 \<le> ofs" "0 < n" and rng: "ofs + n < 2 ^ 63"
    and c: "n \<le> buf_max pr" "buf_off pr \<le> ofs" "ofs + n \<le> buf_off pr + buf_len pr"
  shows "blkid_probe_get_buffer s pr ofs n = (Some (In_buf (ofs - buf_off pr)), pr) \<and>
         (\<exists>bs. peek pr (In_buf (ofs - buf_off pr)) (nat n) = Some bs \<and> length bs = nat n)"
proof -
  obtain b where b: "buf pr = Some b" "int (length b) = buf_max pr"
    using wf c(1) pos by (cases "buf pr") (auto simp: bufs_wf_def)
  have o: "0 \<le> buf_off pr" "buf_len pr \<le> buf_max pr" using wf by (simp_all add: bufs_wf_def)
  have "wrap64 (ofs - buf_off pr) = ofs - buf_off pr"
    using c(2) o pos rng by (intro wrap64_id) simp_all
  then have ptr: "(if ofs \<noteq> 0 then wrap64 (ofs - buf_off pr) else 0) = ofs - buf_off pr"
    using c(2) o by auto
  have "blkid_probe_get_buffer s pr ofs n = buf_ptr pr ofs"
    using w big c bufs_wf_window [OF wf] by (simp add: get_buffer_gen buf_grow_fits)
  then have g: "blkid_probe_get_buffer s pr ofs n = (Some (In_buf (ofs - buf_off pr)), pr)"
    using b ptr by (simp add: buf_ptr_def)
  have k0: "0 \<le> ofs - buf_off pr" using c(2) by simp
  have in_b: "nat (ofs - buf_off pr) + nat n \<le> length b" using c o b pos by linarith
  show ?thesis using g slice_Some [OF k0 in_b] b in_b by (simp add: peek_def)
qed

lemma get_buffer_gen_alloc_fails:
  "wrap64 (ofs + n) = ofs + n \<Longrightarrow> \<not> ofs + n \<le> BLKID_SB_BUFSIZ \<Longrightarrow> buf_max pr < n \<Longrightarrow>
   \<not> n \<le> mem_avail s \<Longrightarrow> blkid_probe_get_buffer s pr ofs n = (None, pr)"
  by (simp add: get_buffer_gen buf_grow_fails)

text \<open>Any other window is read again, into a buffer of at least \<open>n\<close> bytes.\<close>

lemma get_buffer_gen_uncached:
  assumes w: "wrap64 (ofs + n) = ofs + n" and big: "\<not> ofs + n \<le> BLKID_SB_BUFSIZ"
    and wf: "bufs_wf pr" and pos: "0 < n"
    and unc: "\<not> (n \<le> buf_max pr \<and> buf_off pr \<le> ofs \<and> ofs + n \<le> buf_off pr + buf_len pr)"
  shows "blkid_probe_get_buffer s pr ofs n = (None, pr) \<and> buf_max pr < n \<and> \<not> n \<le> mem_avail s
       \<or> (\<exists>pr1 b. off pr1 = off pr \<and> buf_max pr1 = max n (buf_max pr) \<and>
                  (n \<le> buf_max pr \<or> n \<le> mem_avail s) \<and>
                  buf pr1 = Some b \<and> int (length b) = buf_max pr1 \<and>
                  blkid_probe_get_buffer s pr ofs n = buf_read s pr1 ofs n)"
proof (cases "n \<le> buf_max pr")
  case True
  obtain b where b: "buf pr = Some b" "int (length b) = buf_max pr"
    using wf True pos by (cases "buf pr") (auto simp: bufs_wf_def)
  have "blkid_probe_get_buffer s pr ofs n = buf_read s pr ofs n"
    using w big unc True bufs_wf_window [OF wf] by (auto simp: get_buffer_gen buf_grow_fits)
  then show ?thesis using True b by (intro disjI2 exI [of _ pr] exI [of _ b]) simp
next
  case False
  show ?thesis
  proof (cases "n \<le> mem_avail s")
    case True
    from buf_grow_grows [of pr n s] False True obtain nb where nb: "length nb = nat n" and
      g: "buf_grow s pr n = Some (True, pr\<lparr>buf := Some nb, buf_max := n, buf_off := 0, buf_len := 0\<rparr>)"
      by auto
    have "blkid_probe_get_buffer s pr ofs n
            = buf_read s (pr\<lparr>buf := Some nb, buf_max := n, buf_off := 0, buf_len := 0\<rparr>) ofs n"
      using w big g by (simp add: get_buffer_gen)
    moreover have "max n (buf_max pr) = n" using False by simp
    ultimately show ?thesis using True nb pos
      by (intro disjI2 exI [of _ "pr\<lparr>buf := Some nb, buf_max := n, buf_off := 0, buf_len := 0\<rparr>"]
          exI [of _ nb]) simp
  next
    case f: False
    then show ?thesis using w big False by (simp add: get_buffer_gen_alloc_fails)
  qed
qed

lemma buf_read_Some_iff:
  assumes "buf pr1 \<noteq> None" "wrap64 (off pr1 + ofs) = off pr1 + ofs"
  shows "(fst (buf_read s pr1 ofs n) \<noteq> None) =
     (0 \<le> sys_lseek s (off pr1 + ofs) \<and> fst (sys_read s (off pr1 + ofs) n) = n)"
proof -
  obtain b where "buf pr1 = Some b" using assms by auto
  then show ?thesis using assms(2)
    by (cases "sys_read s (off pr1 + ofs) n") (auto simp: buf_read_def buf_ptr_def Let_def)
qed

lemma get_buffer_gen_Some_iff:
  assumes w: "wrap64 (ofs + n) = ofs + n" and big: "\<not> ofs + n \<le> BLKID_SB_BUFSIZ"
    and wf: "bufs_wf pr" and pos: "0 < n"
    and unc: "\<not> (n \<le> buf_max pr \<and> buf_off pr \<le> ofs \<and> ofs + n \<le> buf_off pr + buf_len pr)"
    and w2: "wrap64 (off pr + ofs) = off pr + ofs"
  shows "(fst (blkid_probe_get_buffer s pr ofs n) \<noteq> None) =
     ((n \<le> buf_max pr \<or> n \<le> mem_avail s) \<and> 0 \<le> sys_lseek s (off pr + ofs)
       \<and> fst (sys_read s (off pr + ofs) n) = n)"
  using get_buffer_gen_uncached [OF w big wf pos unc, of s]
proof
  assume "blkid_probe_get_buffer s pr ofs n = (None, pr) \<and> buf_max pr < n \<and> \<not> n \<le> mem_avail s"
  then show ?thesis by simp
next
  assume "\<exists>pr1 b. off pr1 = off pr \<and> buf_max pr1 = max n (buf_max pr) \<and>
                  (n \<le> buf_max pr \<or> n \<le> mem_avail s) \<and>
                  buf pr1 = Some b \<and> int (length b) = buf_max pr1 \<and>
                  blkid_probe_get_buffer s pr ofs n = buf_read s pr1 ofs n"
  then obtain pr1 b where p1: "off pr1 = off pr" "n \<le> buf_max pr \<or> n \<le> mem_avail s"
    "buf pr1 = Some b" "blkid_probe_get_buffer s pr ofs n = buf_read s pr1 ofs n"
    by auto
  have "buf pr1 \<noteq> None" using p1(3) by simp
  from buf_read_Some_iff [OF this, of ofs s n] w2 p1 show ?thesis by simp
qed

lemma bufs_wf_zero_probe: "bufs_wf zero_probe"
  by (simp add: bufs_wf_def zero_probe_def)

lemma bufs_wf_reset_probe_body: "bufs_wf pr \<Longrightarrow> bufs_wf (reset_probe_body pr)"
  by (auto simp: bufs_wf_def reset_probe_body_def blkid_probe_reset_vals_def Let_def
        BLKID_SB_BUFSIZ_def split: option.splits)

lemma bufs_wf_sb_alloc: "bufs_wf pr \<Longrightarrow> sb_alloc s pr = Some pr1 \<Longrightarrow> bufs_wf pr1"
  by (auto simp: bufs_wf_def sb_alloc_def sys_malloc_def BLKID_SB_BUFSIZ_def
        split: option.splits if_splits)

lemma bufs_wf_sb_fill:
  assumes wf: "bufs_wf pr" and sb: "sbbuf pr \<noteq> None" and fl: "sb_fill s pr = Some pr1"
  shows "bufs_wf pr1"
proof (cases "sbbuf_len pr = 0")
  case False
  then show ?thesis using wf fl by (simp add: sb_fill_filled)
next
  case True
  obtain b where b: "sbbuf pr = Some b" using sb by auto
  have "0 \<le> sys_lseek s (off pr)" using fl True sb_fill_None [of s pr] by auto
  from sb_fill_fresh [OF True this] fl b
  have pr1: "pr1 = pr\<lparr>sbbuf := Some (store_at0 b (snd (sys_read s (off pr) BLKID_SB_BUFSIZ))),
                      sbbuf_len := max 0 (fst (sys_read s (off pr) BLKID_SB_BUFSIZ))\<rparr>"
    by simp
  have "fst (sys_read s (off pr) BLKID_SB_BUFSIZ) \<le> BLKID_SB_BUFSIZ"
    using sys_read_length [of BLKID_SB_BUFSIZ s "off pr"] by (simp add: BLKID_SB_BUFSIZ_def)
  then show ?thesis using wf b unfolding pr1
    by (simp add: bufs_wf_def BLKID_SB_BUFSIZ_def split: option.splits)
qed

lemma bufs_wf_buf_ptr: "snd (buf_ptr pr ofs) = pr"
  by (simp add: buf_ptr_def split: option.splits)

lemma bufs_wf_buf_read:
  assumes wf: "bufs_wf pr" and pos: "0 \<le> ofs" "0 \<le> n" and cap: "n \<le> buf_max pr"
    and rng: "ofs + n < 2 ^ 63"
  shows "bufs_wf (snd (buf_read s pr ofs n))"
proof (cases "sys_lseek s (wrap64 (off pr + ofs)) < 0")
  case True then show ?thesis using wf by (simp add: buf_read_def)
next
  case False
  obtain c d where rd: "sys_read s (wrap64 (off pr + ofs)) n = (c, d)"
    by (cases "sys_read s (wrap64 (off pr + ofs)) n")
  define pr1 where "pr1 = pr\<lparr>buf := map_option (\<lambda>b. store_at0 b d) (buf pr)\<rparr>"
  have w1: "bufs_wf pr1" using wf by (auto simp: bufs_wf_def pr1_def split: option.splits)
  show ?thesis
  proof (cases "c = n")
    case f: False
    then show ?thesis using False rd w1 by (simp add: buf_read_def Let_def pr1_def)
  next
    case True
    have "bufs_wf (pr1\<lparr>buf_off := ofs, buf_len := n\<rparr>)"
      using w1 pos cap rng by (auto simp: bufs_wf_def pr1_def split: option.splits)
    then show ?thesis using False rd True
      by (simp add: buf_read_def Let_def pr1_def bufs_wf_buf_ptr)
  qed
qed

lemma bufs_wf_buf_grow:
  "bufs_wf pr \<Longrightarrow> buf_grow s pr n = Some (nb, pr1) \<Longrightarrow> bufs_wf pr1 \<and> n \<le> buf_max pr1"
  by (auto simp: bufs_wf_def buf_grow_def sys_realloc_def split: option.splits if_splits)

lemma bufs_wf_get_buffer:
  assumes wf: "bufs_wf pr" and pos: "0 \<le> ofs" "0 \<le> n" and rng: "ofs + n < 2 ^ 63"
  shows "bufs_wf (snd (blkid_probe_get_buffer s pr ofs n))"
proof (cases "ofs + n \<le> BLKID_SB_BUFSIZ")
  case True
  have w: "wrap64 (ofs + n) = ofs + n" using pos rng by (intro wrap64_id) simp_all
  show ?thesis
  proof (cases "sb_alloc s pr")
    case None then show ?thesis using w True wf by (simp add: get_buffer_sb)
  next
    case (Some pr1)
    note w1 = bufs_wf_sb_alloc [OF wf Some]
    show ?thesis
    proof (cases "sb_fill s pr1")
      case None then show ?thesis using w True Some w1 by (simp add: get_buffer_sb)
    next
      case f: (Some pr2)
      have "sbbuf pr1 \<noteq> None" using sb_alloc_Some [OF Some] by simp
      from bufs_wf_sb_fill [OF w1 this f] show ?thesis using w True Some f by (simp add: get_buffer_sb)
    qed
  qed
next
  case False
  have w: "wrap64 (ofs + n) = ofs + n" using pos rng by (intro wrap64_id) simp_all
  show ?thesis
  proof (cases "buf_grow s pr n")
    case None then show ?thesis using w False wf by (simp add: get_buffer_gen)
  next
    case (Some a)
    obtain nb pr1 where a: "a = (nb, pr1)" by (cases a)
    note w1 = bufs_wf_buf_grow [OF wf Some [unfolded a]]
    show ?thesis using w False Some a w1 bufs_wf_buf_read [OF conjunct1 [OF w1] pos conjunct2 [OF w1] rng]
      by (simp add: get_buffer_gen bufs_wf_buf_ptr)
  qed
qed

text \<open>
  C8 (as the code has it).  The contract of \<^verbatim>\<open>blkid_probe_get_buffer\<close> holds for a
  request of \<open>len > 0\<close> bytes at an offset \<open>off \<ge> 0\<close>, when \<open>off + len\<close> and
  \<open>origin + off\<close> stay inside the signed 64-bit range and the buffer fields of the
  session are well formed (which the call preserves).

  \<^item> When \<open>off + len \<le> BLKID_SB_BUFSIZ\<close> the request is served from the superblock
    buffer.  The buffer is filled only when it holds nothing, by one read of up to
    \<open>BLKID_SB_BUFSIZ\<close> bytes at the origin, which may come back short; when the buffer
    cannot be allocated, the seek fails or the read fails, it holds nothing.  A buffer
    that holds something is used as it is, and the session does not change.  The result
    is \<^verbatim>\<open>NULL\<close> exactly when the filled length does not cover \<open>off + len\<close>; otherwise
    it points \<open>off\<close> bytes into the buffer, at \<open>len\<close> bytes that all lie inside it,
    and that after a fill made by this call are the bytes of the file at
    \<open>origin + off\<close>.
  \<^item> When \<open>off + len > BLKID_SB_BUFSIZ\<close> the request is served from the general
    buffer.  A buffer whose capacity is below \<open>len\<close> is reallocated: when the allocator
    gives that much, the buffer is \<open>len\<close> bytes long afterwards and that is its
    capacity; when it does not, the result is \<^verbatim>\<open>NULL\<close> and the session is as it was.
    A window \<open>[off, off + len)\<close> inside the cached window is served without a read,
    leaves the session as it was and points \<open>off - buf_off\<close> bytes into the buffer, at
    \<open>len\<close> bytes inside it.  Any other window is read again from \<open>origin + off\<close>: the
    call succeeds exactly when the buffer could be grown, the seek succeeded and the
    read gave all \<open>len\<close> bytes, so every short read returns \<^verbatim>\<open>NULL\<close>; on success the
    cached window is \<open>[off, off + len)\<close> and the result points at the start of the
    buffer, at the bytes of the file at \<open>origin + off\<close>.
\<close>

theorem get_buffer_contract:
  assumes res: "blkid_probe_get_buffer s pr ofs n = (r, pr')"
    and pos: "0 \<le> ofs" "0 < n"
    and rng: "ofs + n < 2 ^ 63" "- (2 ^ 63) \<le> off pr" "off pr + ofs < 2 ^ 63"
    and wf: "bufs_wf pr"
  shows
    "bufs_wf pr' \<and>
     (ofs + n \<le> BLKID_SB_BUFSIZ \<longrightarrow>
        sbbuf_len pr' =
          (if sbbuf_len pr = 0 \<and> (sbbuf pr \<noteq> None \<or> BLKID_SB_BUFSIZ \<le> mem_avail s)
                \<and> 0 \<le> sys_lseek s (off pr)
           then max 0 (fst (sys_read s (off pr) BLKID_SB_BUFSIZ)) else sbbuf_len pr) \<and>
        (r = None \<longleftrightarrow> sbbuf_len pr' < ofs + n) \<and>
        (\<forall>p. r = Some p \<longrightarrow>
           p = In_sbbuf ofs \<and> (\<exists>bs. peek pr' p (nat n) = Some bs \<and> length bs = nat n) \<and>
           (sbbuf_len pr = 0 \<longrightarrow>
              peek pr' p (nat n) = Some (take (nat n) (drop (nat (off pr + ofs)) (file_data s))))) \<and>
        (sbbuf_len pr \<noteq> 0 \<longrightarrow> pr' = pr)) \<and>
     (BLKID_SB_BUFSIZ < ofs + n \<longrightarrow>
        buf_max pr' = (if buf_max pr < n \<and> n \<le> mem_avail s then n else buf_max pr) \<and>
        (buf_max pr < n \<and> n \<le> mem_avail s \<longrightarrow> (\<exists>b. buf pr' = Some b \<and> int (length b) = n)) \<and>
        (buf_max pr < n \<and> \<not> n \<le> mem_avail s \<longrightarrow> r = None \<and> pr' = pr) \<and>
        (n \<le> buf_max pr \<and> buf_off pr \<le> ofs \<and> ofs + n \<le> buf_off pr + buf_len pr \<longrightarrow>
           pr' = pr \<and> r = Some (In_buf (ofs - buf_off pr)) \<and>
           (\<exists>bs. peek pr' (In_buf (ofs - buf_off pr)) (nat n) = Some bs \<and> length bs = nat n)) \<and>
        (\<not> (n \<le> buf_max pr \<and> buf_off pr \<le> ofs \<and> ofs + n \<le> buf_off pr + buf_len pr) \<longrightarrow>
           (r \<noteq> None \<longleftrightarrow>
              (n \<le> buf_max pr \<or> n \<le> mem_avail s) \<and> 0 \<le> sys_lseek s (off pr + ofs)
                \<and> fst (sys_read s (off pr + ofs) n) = n) \<and>
           (fst (sys_read s (off pr + ofs) n) \<noteq> n \<longrightarrow> r = None) \<and>
           (\<forall>p. r = Some p \<longrightarrow>
              p = In_buf 0 \<and> buf_off pr' = ofs \<and> buf_len pr' = n \<and>
              peek pr' p (nat n) = Some (take (nat n) (drop (nat (off pr + ofs)) (file_data s))) \<and>
              length (take (nat n) (drop (nat (off pr + ofs)) (file_data s))) = nat n)))"
proof (intro conjI impI)
  have w: "wrap64 (ofs + n) = ofs + n" using pos rng by (intro wrap64_id) simp_all
  have w2: "wrap64 (off pr + ofs) = off pr + ofs" using pos rng by (intro wrap64_id) simp_all
  have n0: "0 \<le> n" using pos by simp
  show wf': "bufs_wf pr'"
    using bufs_wf_get_buffer [OF wf pos(1) n0 rng(1), of s] res by simp
  {
    assume le: "ofs + n \<le> BLKID_SB_BUFSIZ"
    show len: "sbbuf_len pr' =
          (if sbbuf_len pr = 0 \<and> (sbbuf pr \<noteq> None \<or> BLKID_SB_BUFSIZ \<le> mem_avail s)
                \<and> 0 \<le> sys_lseek s (off pr)
           then max 0 (fst (sys_read s (off pr) BLKID_SB_BUFSIZ)) else sbbuf_len pr)"
      using get_buffer_sb_len [OF w le, of s pr] res by simp
    have none: "(r = None) = (\<not> (sbbuf pr \<noteq> None \<or> BLKID_SB_BUFSIZ \<le> mem_avail s)
        \<or> (sbbuf_len pr = 0 \<and> sys_lseek s (off pr) < 0) \<or> sbbuf_len pr' < ofs + n)"
      using get_buffer_sb_None_iff [OF w le, of s pr] res by simp
    have w0: "sbbuf pr = None \<Longrightarrow> sbbuf_len pr = 0"
      using wf by (simp add: bufs_wf_def split: option.splits)
    show "pr' = pr" if "sbbuf_len pr \<noteq> 0"
      using get_buffer_sb_filled [OF w le _ that, of s] w0 that res by auto
    show "r = None \<longleftrightarrow> sbbuf_len pr' < ofs + n"
    proof
      assume "r = None"
      then consider "sbbuf pr = None \<and> \<not> BLKID_SB_BUFSIZ \<le> mem_avail s"
        | "sbbuf_len pr = 0 \<and> sys_lseek s (off pr) < 0" | "sbbuf_len pr' < ofs + n"
        using none by auto
      then show "sbbuf_len pr' < ofs + n"
      proof cases
        case 1 then show ?thesis using len w0 pos by simp
      next
        case 2 then show ?thesis using len pos by simp
      next
        case 3 then show ?thesis .
      qed
    next
      assume "sbbuf_len pr' < ofs + n" then show "r = None" using none by simp
    qed
    show "\<forall>p. r = Some p \<longrightarrow>
           p = In_sbbuf ofs \<and> (\<exists>bs. peek pr' p (nat n) = Some bs \<and> length bs = nat n) \<and>
           (sbbuf_len pr = 0 \<longrightarrow>
              peek pr' p (nat n) = Some (take (nat n) (drop (nat (off pr + ofs)) (file_data s))))"
    proof (intro allI impI conjI)
      fix p assume p: "r = Some p"
      show "p = In_sbbuf ofs" using get_buffer_sb_ptr [OF w le, of s pr p] res p by simp
      show "\<exists>bs. peek pr' p (nat n) = Some bs \<and> length bs = nat n"
        by (rule get_buffer_sb_inside [OF w le wf pos(1) n0 res [unfolded p]])
      assume "sbbuf_len pr = 0"
      then show "peek pr' p (nat n) = Some (take (nat n) (drop (nat (off pr + ofs)) (file_data s)))"
        using get_buffer_sb_fresh_content [OF w le _ pos wf res [unfolded p]] by simp
    qed
  }
  assume "BLKID_SB_BUFSIZ < ofs + n"
  then have big: "\<not> ofs + n \<le> BLKID_SB_BUFSIZ" by simp
  {
    assume c: "n \<le> buf_max pr \<and> buf_off pr \<le> ofs \<and> ofs + n \<le> buf_off pr + buf_len pr"
    note g = get_buffer_gen_cached [OF w big wf pos rng(1) conjunct1 [OF c]
        conjunct1 [OF conjunct2 [OF c]] conjunct2 [OF conjunct2 [OF c]], of s]
    show "pr' = pr" using g res by simp
    show "r = Some (In_buf (ofs - buf_off pr))" using g res by simp
    show "\<exists>bs. peek pr' (In_buf (ofs - buf_off pr)) (nat n) = Some bs \<and> length bs = nat n"
      using g res by simp
  }
  show mx: "buf_max pr' = (if buf_max pr < n \<and> n \<le> mem_avail s then n else buf_max pr)"
  proof (cases "n \<le> buf_max pr \<and> buf_off pr \<le> ofs \<and> ofs + n \<le> buf_off pr + buf_len pr")
    case True
    then show ?thesis using get_buffer_gen_cached [OF w big wf pos rng(1), of s] res by simp
  next
    case False
    from get_buffer_gen_uncached [OF w big wf pos(2) False, of s] show ?thesis
    proof
      assume "blkid_probe_get_buffer s pr ofs n = (None, pr) \<and> buf_max pr < n \<and> \<not> n \<le> mem_avail s"
      then show ?thesis using res by simp
    next
      assume "\<exists>pr1 b. off pr1 = off pr \<and> buf_max pr1 = max n (buf_max pr) \<and>
                  (n \<le> buf_max pr \<or> n \<le> mem_avail s) \<and>
                  buf pr1 = Some b \<and> int (length b) = buf_max pr1 \<and>
                  blkid_probe_get_buffer s pr ofs n = buf_read s pr1 ofs n"
      then obtain pr1 where p1: "buf_max pr1 = max n (buf_max pr)"
        "blkid_probe_get_buffer s pr ofs n = buf_read s pr1 ofs n" "n \<le> buf_max pr \<or> n \<le> mem_avail s"
        by auto
      have "snd (buf_read s pr1 ofs n) = pr'" using p1(2) res by (metis snd_conv)
      then have "buf_max pr' = buf_max pr1" using buf_read_buf_max [of s pr1 ofs n] by simp
      then show ?thesis using p1(1,3) by auto
    qed
  qed
  show "\<exists>b. buf pr' = Some b \<and> int (length b) = n" if "buf_max pr < n \<and> n \<le> mem_avail s"
    using wf' mx that pos by (cases "buf pr'") (auto simp: bufs_wf_def)
  {
    assume f: "buf_max pr < n \<and> \<not> n \<le> mem_avail s"
    have "blkid_probe_get_buffer s pr ofs n = (None, pr)"
      using get_buffer_gen_alloc_fails [OF w big] f by simp
    then show "r = None" "pr' = pr" using res by simp_all
  }
  assume unc: "\<not> (n \<le> buf_max pr \<and> buf_off pr \<le> ofs \<and> ofs + n \<le> buf_off pr + buf_len pr)"
  show "r \<noteq> None \<longleftrightarrow>
              (n \<le> buf_max pr \<or> n \<le> mem_avail s) \<and> 0 \<le> sys_lseek s (off pr + ofs)
                \<and> fst (sys_read s (off pr + ofs) n) = n"
    using get_buffer_gen_Some_iff [OF w big wf pos(2) unc w2, of s] res by simp
  then show "fst (sys_read s (off pr + ofs) n) \<noteq> n \<Longrightarrow> r = None" by auto
  show "\<forall>p. r = Some p \<longrightarrow>
              p = In_buf 0 \<and> buf_off pr' = ofs \<and> buf_len pr' = n \<and>
              peek pr' p (nat n) = Some (take (nat n) (drop (nat (off pr + ofs)) (file_data s))) \<and>
              length (take (nat n) (drop (nat (off pr + ofs)) (file_data s))) = nat n"
  proof (intro allI impI)
    fix p assume p: "r = Some p"
    from get_buffer_gen_uncached [OF w big wf pos(2) unc, of s] res p
    obtain pr1 b where o: "off pr1 = off pr" and bb: "buf pr1 = Some b"
      "int (length b) = buf_max pr1" "buf_max pr1 = max n (buf_max pr)"
      and br: "buf_read s pr1 ofs n = (Some p, pr')" by auto
    have cap: "\<And>b'. buf pr1 = Some b' \<Longrightarrow> n \<le> int (length b')" using bb by auto
    have w3: "wrap64 (off pr1 + ofs) = off pr1 + ofs" using w2 o by simp
    show "p = In_buf 0 \<and> buf_off pr' = ofs \<and> buf_len pr' = n \<and>
              peek pr' p (nat n) = Some (take (nat n) (drop (nat (off pr + ofs)) (file_data s))) \<and>
              length (take (nat n) (drop (nat (off pr + ofs)) (file_data s))) = nat n"
      using buf_read_Some [OF br n0 w3 cap] unfolding o .
  qed
qed

theorem get_buffer_contract_witness:
  "fst (blkid_probe_get_buffer dev8 zero_probe 2 4) = Some (In_sbbuf 2) \<and>
   peek (snd (blkid_probe_get_buffer dev8 zero_probe 2 4)) (In_sbbuf 2) 4 = Some [3, 4, 5, 6] \<and>
   fst (blkid_probe_get_buffer dev8 zero_probe 6 4) = None \<and>
   fst (blkid_probe_get_buffer dev8 zero_probe 0x10000 4) = None \<and>
   buf_max (snd (blkid_probe_get_buffer dev8 zero_probe 0x10000 4)) = 4"
proof -
  have rd: "sys_read dev8 0 65536 = (8, [1, 2, 3, 4, 5, 6, 7, 8])"
    by (simp add: sys_read_def dev8_def)
  have sk: "sys_lseek dev8 0 = 0" by (simp add: sys_lseek_def dev8_def)
  have z: "sbbuf_len zero_probe = 0" "sbbuf zero_probe = None" "off zero_probe = 0"
    "buf_max zero_probe = 0" "buf_off zero_probe = 0" "buf_len zero_probe = 0"
    by (simp_all add: zero_probe_def)
  have m: "mem_avail dev8 = 0x100000" "file_data dev8 = [1, 2, 3, 4, 5, 6, 7, 8]"
    by (simp_all add: dev8_def)
  have a: "fst (blkid_probe_get_buffer dev8 zero_probe 2 4) = Some (In_sbbuf 2) \<and>
   peek (snd (blkid_probe_get_buffer dev8 zero_probe 2 4)) (In_sbbuf 2) 4 = Some [3, 4, 5, 6]"
    using get_buffer_contract [where s = dev8 and pr = zero_probe and ofs = "2" and n = 4
        and r = "fst (blkid_probe_get_buffer dev8 zero_probe 2 4)" and pr' = "snd (blkid_probe_get_buffer dev8 zero_probe 2 4)"]
      bufs_wf_zero_probe
    by (auto simp: rd sk z m BLKID_SB_BUFSIZ_def)
  have b: "fst (blkid_probe_get_buffer dev8 zero_probe 6 4) = None"
    using get_buffer_contract [where s = dev8 and pr = zero_probe and ofs = "6" and n = 4
        and r = "fst (blkid_probe_get_buffer dev8 zero_probe 6 4)" and pr' = "snd (blkid_probe_get_buffer dev8 zero_probe 6 4)"]
      bufs_wf_zero_probe
    by (simp add: rd sk z m BLKID_SB_BUFSIZ_def)
  have rd2: "sys_read dev8 0x10000 4 = (0, [])"
    by (simp add: sys_read_def dev8_def)
  have c: "fst (blkid_probe_get_buffer dev8 zero_probe 0x10000 4) = None \<and>
   buf_max (snd (blkid_probe_get_buffer dev8 zero_probe 0x10000 4)) = 4"
    using get_buffer_contract [where s = dev8 and pr = zero_probe and ofs = "0x10000" and n = 4
        and r = "fst (blkid_probe_get_buffer dev8 zero_probe 0x10000 4)" and pr' = "snd (blkid_probe_get_buffer dev8 zero_probe 0x10000 4)"]
      bufs_wf_zero_probe
    by (simp add: rd2 z m BLKID_SB_BUFSIZ_def)
  show ?thesis using a b c by simp
qed

text \<open>
  The claim as the specification words it, for every offset and length, fails outside
  these bounds.  A request of no bytes on a device that cannot seek returns \<^verbatim>\<open>NULL\<close>
  although the filled length, 0, covers \<open>off + len = 0\<close>.  A request of 4 bytes at
  offset -4 is served, with a pointer 4 bytes before the buffer, where no byte of the
  buffer lies.  At the origin \<open>-(2^63 - 4)\<close> and the offset \<open>2^63 - 4\<close> a request of 8 bytes
  wraps \<open>off + len\<close> to a negative number, so it is taken to the superblock buffer and
  refused, though origin plus offset is the start of the file and the bytes are there.
\<close>

theorem get_buffer_out_of_range_counterexample:
  "fst (blkid_probe_get_buffer (dev8\<lparr>seek_ok := False\<rparr>) zero_probe 0 0) = None \<and>
   sbbuf_len (snd (blkid_probe_get_buffer (dev8\<lparr>seek_ok := False\<rparr>) zero_probe 0 0)) = 0 \<and>
   fst (blkid_probe_get_buffer dev8 zero_probe (-4) 4) = Some (In_sbbuf (-4)) \<and>
   peek (snd (blkid_probe_get_buffer dev8 zero_probe (-4) 4)) (In_sbbuf (-4)) 4 = None \<and>
   fst (blkid_probe_get_buffer dev8 (zero_probe\<lparr>off := - 9223372036854775804\<rparr>)
          9223372036854775804 8) = None \<and>
   fst (sys_read dev8 (- 9223372036854775804 + 9223372036854775804) 8) = 8"
proof -
  have z: "sbbuf_len zero_probe = 0" "sbbuf zero_probe = None" "off zero_probe = 0"
    by (simp_all add: zero_probe_def)
  have m: "mem_avail dev8 = 0x100000" "file_data dev8 = [1, 2, 3, 4, 5, 6, 7, 8]"
    "read_ok dev8" "seek_ok dev8"
    by (simp_all add: dev8_def)
  have w0: "wrap64 (0 + 0) = 0 + 0" "wrap64 (- 4 + 4) = - 4 + 4" by (simp_all add: wrap64_def)
  have le: "(0::int) + 0 \<le> BLKID_SB_BUFSIZ" "(- 4::int) + 4 \<le> BLKID_SB_BUFSIZ"
    by (simp_all add: BLKID_SB_BUFSIZ_def)
  have a: "fst (blkid_probe_get_buffer (dev8\<lparr>seek_ok := False\<rparr>) zero_probe 0 0) = None"
    unfolding get_buffer_sb_None_iff [OF w0(1) le(1)]
    by (simp add: z sys_lseek_def)
  have b: "sbbuf_len (snd (blkid_probe_get_buffer (dev8\<lparr>seek_ok := False\<rparr>) zero_probe 0 0)) = 0"
    unfolding get_buffer_sb_len [OF w0(1) le(1)]
    by (simp add: z sys_lseek_def)
  have l4: "sbbuf_len (snd (blkid_probe_get_buffer dev8 zero_probe (- 4) 4)) = 8"
    unfolding get_buffer_sb_len [OF w0(2) le(2)]
    by (simp add: z m sys_lseek_def sys_read_def BLKID_SB_BUFSIZ_def)
  have "fst (blkid_probe_get_buffer dev8 zero_probe (- 4) 4) \<noteq> None"
    unfolding get_buffer_sb_None_iff [OF w0(2) le(2)] l4
    by (simp add: z m sys_lseek_def BLKID_SB_BUFSIZ_def)
  then obtain p where p: "fst (blkid_probe_get_buffer dev8 zero_probe (- 4) 4) = Some p" by auto
  have c: "fst (blkid_probe_get_buffer dev8 zero_probe (- 4) 4) = Some (In_sbbuf (- 4))"
    using get_buffer_sb_ptr [OF w0(2) le(2) p] p by simp
  have d: "peek (snd (blkid_probe_get_buffer dev8 zero_probe (- 4) 4)) (In_sbbuf (- 4)) 4 = None"
    by (rule peek_before_start) simp
  have w1: "wrap64 9223372036854775812 = - 9223372036854775804"
    by (simp add: wrap64_def)
  have e: "fst (blkid_probe_get_buffer dev8 (zero_probe\<lparr>off := - 9223372036854775804\<rparr>)
          9223372036854775804 8) = None"
    by (simp add: blkid_probe_get_buffer_def w1 BLKID_SB_BUFSIZ_def sb_alloc_def sys_malloc_def
        sb_fill_def sys_lseek_def zero_probe_def m split: option.splits prod.splits)
  have f: "fst (sys_read dev8 (- 9223372036854775804 + 9223372036854775804) 8) = 8"
    by (simp add: sys_read_def m)
  show ?thesis using a b c d e f by simp
qed

subsection \<open>Binding a device\<close>

lemma reset_probe_body_sb:
  "sbbuf_len (reset_probe_body pr) = 0" "(sbbuf (reset_probe_body pr) = None) = (sbbuf pr = None)"
  by (simp_all add: reset_probe_body_def blkid_probe_reset_vals_def Let_def split: option.splits)

text \<open>The session \<^verbatim>\<open>blkid_probe_set_device\<close> hands to its precautionary read.\<close>

lemma set_device_rc:
  "fst (blkid_probe_set_device s (Some pr) fd' off' size') =
     (if (sbbuf pr \<noteq> None \<or> BLKID_SB_BUFSIZ \<le> mem_avail s) \<and> 0 \<le> sys_lseek s off'
          \<and> 512 \<le> fst (sys_read s off' BLKID_SB_BUFSIZ)
      then 0 else -1)"
proof -
  define pr3 where "pr3 = (let pr2 = reset_probe_body pr\<lparr>fd := fd', off := off'\<rparr>
        in if size' = 0 then (case blk_size s of None \<Rightarrow> pr2 | Some k \<Rightarrow> pr2\<lparr>dev_size := k\<rparr>)
           else pr2\<lparr>dev_size := size'\<rparr>)"
  have f: "sbbuf_len pr3 = 0" "(sbbuf pr3 = None) = (sbbuf pr = None)" "off pr3 = off'"
    by (simp_all add: pr3_def Let_def reset_probe_body_sb split: option.splits)
  have w: "wrap64 (0 + 0x200) = 0 + 0x200" by (simp add: wrap64_def)
  have le: "0 + 0x200 \<le> BLKID_SB_BUFSIZ" by (simp add: BLKID_SB_BUFSIZ_def)
  have rc: "fst (blkid_probe_set_device s (Some pr) fd' off' size') =
     (if fst (blkid_probe_get_buffer s pr3 0 0x200) = None then -1 else 0)"
    by (cases "blkid_probe_get_buffer s pr3 0 0x200")
       (auto simp: blkid_probe_set_device_def pr3_def Let_def split: option.splits)
  have "(fst (blkid_probe_get_buffer s pr3 0 0x200) = None) =
      (\<not> ((sbbuf pr \<noteq> None \<or> BLKID_SB_BUFSIZ \<le> mem_avail s) \<and> 0 \<le> sys_lseek s off'
          \<and> 512 \<le> fst (sys_read s off' BLKID_SB_BUFSIZ)))"
    unfolding get_buffer_sb_None_iff [OF w le] get_buffer_sb_len [OF w le]
    by (auto simp: f)
  then show ?thesis using rc by simp
qed

text \<open>Binding a device keeps the buffer fields well formed.\<close>

lemma bufs_wf_set_device:
  assumes wf: "bufs_wf pr"
    and sd: "blkid_probe_set_device s (Some pr) fd' off' size' = (rc, Some pr')"
  shows "bufs_wf pr'"
proof -
  define pr3 where "pr3 = (let pr2 = reset_probe_body pr\<lparr>fd := fd', off := off'\<rparr>
        in if size' = 0 then (case blk_size s of None \<Rightarrow> pr2 | Some k \<Rightarrow> pr2\<lparr>dev_size := k\<rparr>)
           else pr2\<lparr>dev_size := size'\<rparr>)"
  have w3: "bufs_wf pr3"
    using bufs_wf_reset_probe_body [OF wf]
    by (simp add: pr3_def Let_def bufs_wf_def split: option.splits)
  obtain b pr4 where g: "blkid_probe_get_buffer s pr3 0 0x200 = (b, pr4)"
    by (cases "blkid_probe_get_buffer s pr3 0 0x200")
  have w4: "bufs_wf pr4" using bufs_wf_get_buffer [OF w3, of 0 "0x200" s] g by simp
  have "pr' = pr4 \<or> pr' = pr4\<lparr>idx := 0\<rparr>"
    using sd g by (cases b) (auto simp: blkid_probe_set_device_def pr3_def Let_def)
  then show ?thesis using w4 by (auto simp: bufs_wf_def split: option.splits)
qed

text \<open>
  C2 (as the code has it).  \<^verbatim>\<open>blkid_probe_set_device\<close> on a session returns 0 exactly
  when its precautionary request for the first 512 bytes is served: the superblock
  buffer exists or can be allocated, the seek to the origin succeeds, and the read that
  fills the buffer delivers at least 512 bytes.  In every other case, a read of fewer
  than 512 bytes included, it returns -1.
\<close>

theorem set_device_needs_512_bytes:
  "fst (blkid_probe_set_device s (Some pr) fd' off' size') =
     (if (sbbuf pr \<noteq> None \<or> BLKID_SB_BUFSIZ \<le> mem_avail s) \<and> 0 \<le> sys_lseek s off'
          \<and> 512 \<le> fst (sys_read s off' BLKID_SB_BUFSIZ)
      then 0 else -1)"
  by (rule set_device_rc)

theorem set_device_needs_512_bytes_witness:
  "fst (sys_read dev1k 0 BLKID_SB_BUFSIZ) = 1024 \<and>
   fst (blkid_probe_set_device dev1k (Some zero_probe) 3 0 0) = 0"
  using set_device_needs_512_bytes [of dev1k zero_probe 3 0 0]
  by (simp add: sys_read_def sys_lseek_def dev1k_def BLKID_SB_BUFSIZ_def)

text \<open>
  The claim as the specification words it fails on a readable device of 256 bytes: the
  read delivers 256 bytes, more than one, and the call returns -1.
\<close>

theorem set_device_short_device_counterexample:
  "fst (sys_read dev256 0 512) = 256 \<and>
   fst (sys_read dev256 0 BLKID_SB_BUFSIZ) = 256 \<and>
   fst (blkid_probe_set_device dev256 (Some zero_probe) 3 0 0) = -1"
  by (simp add: set_device_rc sys_read_def sys_lseek_def dev256_def BLKID_SB_BUFSIZ_def)


subsection \<open>The tag store at capacity\<close>

lemma vals_wf_zero_probe: "vals_wf zero_probe"
  by (simp add: vals_wf_def zero_probe_def zero_prval_def list_all_iff)

lemma vals_wf_reset_vals: "vals_wf (blkid_probe_reset_vals pr)"
  by (simp add: vals_wf_def blkid_probe_reset_vals_def zero_prval_def list_all_iff)

lemma vals_wf_data:
  "vals_wf pr \<Longrightarrow> v < BLKID_PROBVAL_NVALS \<Longrightarrow> length (v_data (vals pr ! v)) = BLKID_PROBVAL_BUFSIZ"
  by (simp add: vals_wf_def list_all_length)

lemma vals_val_upd_same:
  "v < length (vals pr) \<Longrightarrow> vals (val_upd pr v f) ! v = f (vals pr ! v)"
  by (simp add: val_upd_def)

lemma vals_val_upd_other:
  "w \<noteq> v \<Longrightarrow> vals (val_upd pr v f) ! w = vals pr ! w"
  by (simp add: val_upd_def)

lemma val_upd_fields [simp]:
  "nvals (val_upd pr v f) = nvals pr" "probreq (val_upd pr v f) = probreq pr"
  "length (vals (val_upd pr v f)) = length (vals pr)"
  by (simp_all add: val_upd_def)

lemma take_val_upd: "k \<le> v \<Longrightarrow> take k (vals (val_upd pr v f)) = take k (vals pr)"
  by (simp add: val_upd_def)

lemma assign_value_full:
  "BLKID_PROBVAL_NVALS \<le> nvals pr \<Longrightarrow> blkid_probe_assign_value pr nm = (None, pr)"
  by (simp add: blkid_probe_assign_value_def split: option.splits)

lemma assign_value_room:
  "nvals pr < BLKID_PROBVAL_NVALS \<Longrightarrow>
   blkid_probe_assign_value pr (Some nm) =
     (Some (nvals pr), (val_upd pr (nvals pr) (\<lambda>e. e\<lparr>v_name := Some nm\<rparr>))\<lparr>nvals := nvals pr + 1\<rparr>)"
  by (simp add: blkid_probe_assign_value_def Let_def)

lemma set_value_full:
  "BLKID_PROBVAL_NVALS \<le> nvals pr \<Longrightarrow> blkid_probe_set_value pr nm d = (-1, pr)"
  by (simp add: blkid_probe_set_value_def assign_value_full Let_def)

lemma set_uuid_as_full:
  "BLKID_PROBVAL_NVALS \<le> nvals pr \<Longrightarrow> \<not> uuid_is_empty uuid 16 \<Longrightarrow>
   blkid_probe_set_uuid_as pr uuid (Some nm) = Inl Null_deref"
  by (simp add: blkid_probe_set_uuid_as_def assign_value_full uuid_store_def)

lemma set_uuid_full:
  "BLKID_PROBVAL_NVALS \<le> nvals pr \<Longrightarrow> \<not> uuid_is_empty uuid 16 \<Longrightarrow>
   probreq pr AND BLKID_PROBREQ_UUIDRAW = 0 \<Longrightarrow> probreq pr AND BLKID_PROBREQ_UUID \<noteq> 0 \<Longrightarrow>
   blkid_probe_set_uuid pr uuid = Inl Null_deref"
  by (simp add: blkid_probe_set_uuid_def blkid_probe_set_uuid_as_def assign_value_full uuid_store_def)

lemma set_label_full:
  "BLKID_PROBVAL_NVALS \<le> nvals pr \<Longrightarrow>
   probreq pr AND BLKID_PROBREQ_LABELRAW \<noteq> 0 \<or> probreq pr AND BLKID_PROBREQ_LABEL \<noteq> 0 \<Longrightarrow>
   blkid_probe_set_label pr label = Inr (-1, pr)"
  by (auto simp: blkid_probe_set_label_def set_value_full assign_value_full Let_def)

text \<open>
  C3.  With the tag store at capacity, \<^verbatim>\<open>blkid_probe_set_value\<close> and
  \<^verbatim>\<open>blkid_probe_set_label\<close> return -1 and leave the session as it was (the two lemmas
  above).  \<^verbatim>\<open>blkid_probe_set_uuid_as\<close> with a name does not: for a UUID that is not all
  zero it takes the \<^verbatim>\<open>NULL\<close> that \<^verbatim>\<open>blkid_probe_assign_value\<close> returns and stores
  through it.
\<close>

theorem set_uuid_as_full_store_null_deref:
  "BLKID_PROBVAL_NVALS \<le> nvals pr \<Longrightarrow> \<not> uuid_is_empty uuid 16 \<Longrightarrow>
   blkid_probe_set_uuid_as pr uuid (Some nm) = Inl Null_deref"
  by (rule set_uuid_as_full)

theorem set_uuid_as_full_store_null_deref_witness:
  "nvals full_probe = BLKID_PROBVAL_NVALS \<and> \<not> uuid_is_empty uuid1 16 \<and>
   blkid_probe_set_uuid_as full_probe uuid1 (Some ''EXT_JOURNAL'') = Inl Null_deref \<and>
   blkid_probe_set_value full_probe (Some ''EXT_JOURNAL'') uuid1 = (-1, full_probe)"
  using set_uuid_as_full_store_null_deref [of full_probe uuid1 "''EXT_JOURNAL''"]
  by (simp add: set_value_full full_probe_def zero_probe_def uuid_is_empty_def uuid1_def)

subsection \<open>UUIDs under a name\<close>

lemma length_concat_hex2: "length (concat (map hex2 xs)) = 2 * length xs"
  by (induction xs) (simp_all add: hex2_def)

lemma length_uuid_unparse: "length u = 16 \<Longrightarrow> length (uuid_unparse u) = 36"
  by (simp add: uuid_unparse_def length_concat_hex2)

lemma set_value_rc: "fst (blkid_probe_set_value pr nm d) = 0 \<or> fst (blkid_probe_set_value pr nm d) = -1"
  by (simp add: blkid_probe_set_value_def Let_def split: prod.splits option.splits)

lemma prval_bytes_store:
  "length d \<le> length old \<Longrightarrow> prval_bytes (e\<lparr>v_data := store_at0 old d, v_len := length d\<rparr>) = d"
  by (simp add: prval_bytes_def store_at0_def)

lemma set_uuid_as_named:
  assumes room: "nvals pr < BLKID_PROBVAL_NVALS" and wf: "vals_wf pr"
    and len: "length uuid = 16" and nz: "\<not> uuid_is_empty uuid 16"
  shows "\<exists>pr'. blkid_probe_set_uuid_as pr uuid (Some nm) = Inr (0, pr') \<and>
           nvals pr' = nvals pr + 1 \<and>
           v_name (vals pr' ! nvals pr) = Some nm \<and>
           prval_bytes (vals pr' ! nvals pr) = uuid_unparse uuid @ [0] \<and>
           take (nvals pr) (vals pr') = take (nvals pr) (vals pr)"
proof -
  let ?v = "nvals pr"
  let ?pr1 = "(val_upd pr ?v (\<lambda>e. e\<lparr>v_name := Some nm\<rparr>))\<lparr>nvals := ?v + 1\<rparr>"
  let ?f = "\<lambda>e. e\<lparr>v_data := store_at0 (v_data e) (snprintf_bytes BLKID_PROBVAL_BUFSIZ (uuid_unparse uuid)),
                   v_len := length (uuid_unparse uuid) + 1\<rparr>"
  let ?pr' = "val_upd ?pr1 ?v ?f"
  have lv: "?v < length (vals pr)" using room wf by (simp add: vals_wf_def)
  have ld: "length (v_data (vals pr ! ?v)) = BLKID_PROBVAL_BUFSIZ" by (rule vals_wf_data [OF wf room])
  have res: "blkid_probe_set_uuid_as pr uuid (Some nm) = Inr (0, ?pr')"
    using nz room by (simp add: blkid_probe_set_uuid_as_def assign_value_room uuid_store_def)
  have e: "vals ?pr' ! ?v = ?f ((vals pr ! ?v)\<lparr>v_name := Some nm\<rparr>)"
    using lv by (simp add: val_upd_def)
  have sn: "snprintf_bytes BLKID_PROBVAL_BUFSIZ (uuid_unparse uuid) = uuid_unparse uuid @ [0]"
    using length_uuid_unparse [OF len] by (simp add: snprintf_bytes_def BLKID_PROBVAL_BUFSIZ_def)
  have "prval_bytes (?f x) = uuid_unparse uuid @ [0]" if "length (v_data x) = BLKID_PROBVAL_BUFSIZ" for x
    using that length_uuid_unparse [OF len]
    by (simp add: sn [unfolded BLKID_PROBVAL_BUFSIZ_def] prval_bytes_def store_at0_def BLKID_PROBVAL_BUFSIZ_def)
  from this [of "(vals pr ! ?v)\<lparr>v_name := Some nm\<rparr>"] ld
  have pb: "prval_bytes (vals ?pr' ! ?v) = uuid_unparse uuid @ [0]"
    by (simp only: e) simp
  have nm: "v_name (vals ?pr' ! ?v) = Some nm" unfolding e by simp
  have tk: "take ?v (vals ?pr') = take ?v (vals pr)" by (simp add: val_upd_def)
  have nv: "nvals ?pr' = ?v + 1" by simp
  show ?thesis using res pb nm tk nv by blast
qed

lemma set_uuid_as_default_uuid_off:
  assumes "probreq pr AND BLKID_PROBREQ_UUID = 0" "\<not> uuid_is_empty uuid 16"
  shows "blkid_probe_set_uuid_as pr uuid None =
     Inr (if probreq pr AND BLKID_PROBREQ_UUIDRAW \<noteq> 0
          then blkid_probe_set_value pr (Some ''UUID_RAW'') (take 16 uuid) else (0, pr))"
proof (cases "probreq pr AND BLKID_PROBREQ_UUIDRAW \<noteq> 0")
  case False
  then show ?thesis using assms by (simp add: blkid_probe_set_uuid_as_def)
next
  case True
  obtain rc pr1 where sv: "blkid_probe_set_value pr (Some ''UUID_RAW'') (take 16 uuid) = (rc, pr1)"
    by (cases "blkid_probe_set_value pr (Some ''UUID_RAW'') (take 16 uuid)")
  have rc: "rc = 0 \<or> rc = -1" using set_value_rc [of pr "Some ''UUID_RAW''" "take 16 uuid"] sv by simp
  have p1: "probreq pr1 = probreq pr"
    using sv by (auto simp: blkid_probe_set_value_def blkid_probe_assign_value_def Let_def split: if_splits)
  show ?thesis using True assms sv rc p1
    by (auto simp: blkid_probe_set_uuid_as_def)
qed

text \<open>
  C5 (as the code has it).  For a UUID of sixteen bytes that are not all zero and a name
  the caller supplies, \<^verbatim>\<open>blkid_probe_set_uuid_as\<close> appends one tag under that name,
  holding the canonical text and its terminator, whenever the store has a free slot: the
  probe-request mask is not consulted.  The mask gates the default name only: there,
  with the \<open>UUID\<close> flag off, nothing but the raw tag (when that is requested) is
  appended.
\<close>

theorem set_uuid_as_name_ignores_mask:
  assumes "nvals pr < BLKID_PROBVAL_NVALS" and "vals_wf pr"
    and "length uuid = 16" and "\<not> uuid_is_empty uuid 16"
  shows "(\<exists>pr'. blkid_probe_set_uuid_as pr uuid (Some nm) = Inr (0, pr') \<and>
           nvals pr' = nvals pr + 1 \<and>
           v_name (vals pr' ! nvals pr) = Some nm \<and>
           prval_bytes (vals pr' ! nvals pr) = uuid_unparse uuid @ [0] \<and>
           take (nvals pr) (vals pr') = take (nvals pr) (vals pr)) \<and>
         (probreq pr AND BLKID_PROBREQ_UUID = 0 \<longrightarrow>
            blkid_probe_set_uuid_as pr uuid None =
              Inr (if probreq pr AND BLKID_PROBREQ_UUIDRAW \<noteq> 0
                   then blkid_probe_set_value pr (Some ''UUID_RAW'') (take 16 uuid) else (0, pr)))"
  using set_uuid_as_named [OF assms] set_uuid_as_default_uuid_off [OF _ assms(4)] by blast

theorem set_uuid_as_name_ignores_mask_witness:
  "probreq zero_probe AND BLKID_PROBREQ_UUID = 0 \<and>
   \<not> isl (blkid_probe_set_uuid_as zero_probe uuid1 (Some ''EXT_JOURNAL'')) \<and>
   nvals (snd (projr (blkid_probe_set_uuid_as zero_probe uuid1 (Some ''EXT_JOURNAL'')))) = 1 \<and>
   prval_bytes (vals (snd (projr (blkid_probe_set_uuid_as zero_probe uuid1 (Some ''EXT_JOURNAL'')))) ! 0)
     = bytes_of ''01234567-89ab-cdef-fedc-ba9876543210'' @ [0] \<and>
   blkid_probe_set_uuid_as zero_probe uuid1 None = Inr (0, zero_probe)"
proof -
  have a: "nvals zero_probe < BLKID_PROBVAL_NVALS" "nvals zero_probe = 0"
    "probreq zero_probe AND BLKID_PROBREQ_UUID = 0" "probreq zero_probe AND BLKID_PROBREQ_UUIDRAW = 0"
    by (simp_all add: zero_probe_def BLKID_PROBVAL_NVALS_def)
  have b: "length uuid1 = 16" "\<not> uuid_is_empty uuid1 16"
    by (simp_all add: uuid1_def uuid_is_empty_def)
  have u: "uuid_unparse uuid1 = bytes_of ''01234567-89ab-cdef-fedc-ba9876543210''"
    by (simp add: uuid_unparse_def uuid1_def hex2_def hexdigit_def bytes_of_def drop_bit_eq_div)
  note t = set_uuid_as_name_ignores_mask [OF a(1) vals_wf_zero_probe b, of "''EXT_JOURNAL''"]
  from t a(2) obtain pr' where
    "blkid_probe_set_uuid_as zero_probe uuid1 (Some ''EXT_JOURNAL'') = Inr (0, pr')"
    "nvals pr' = 1" "prval_bytes (vals pr' ! 0) = uuid_unparse uuid1 @ [0]" by auto
  moreover have "blkid_probe_set_uuid_as zero_probe uuid1 None = Inr (0, zero_probe)"
    using t a(3,4) by simp
  ultimately show ?thesis using a(3) u by simp
qed

text \<open>
  The claim as the specification words it fails on a session that requests nothing:
  the named tag is appended all the same.
\<close>

theorem set_uuid_as_name_flag_off_counterexample:
  "probreq zero_probe AND BLKID_PROBREQ_UUID = 0 \<and>
   \<not> isl (blkid_probe_set_uuid_as zero_probe uuid1 (Some ''EXT_JOURNAL'')) \<and>
   fst (projr (blkid_probe_set_uuid_as zero_probe uuid1 (Some ''EXT_JOURNAL''))) = 0 \<and>
   nvals (snd (projr (blkid_probe_set_uuid_as zero_probe uuid1 (Some ''EXT_JOURNAL'')))) = 1 \<and>
   v_name (vals (snd (projr (blkid_probe_set_uuid_as zero_probe uuid1 (Some ''EXT_JOURNAL'')))) ! 0)
     = Some ''EXT_JOURNAL''"
proof -
  have a: "nvals zero_probe < BLKID_PROBVAL_NVALS" "nvals zero_probe = 0"
    by (simp_all add: zero_probe_def BLKID_PROBVAL_NVALS_def)
  have b: "length uuid1 = 16" "\<not> uuid_is_empty uuid1 16"
    by (simp_all add: uuid1_def uuid_is_empty_def)
  from set_uuid_as_named [OF a(1) vals_wf_zero_probe b, of "''EXT_JOURNAL''"] a(2)
  obtain pr' where "blkid_probe_set_uuid_as zero_probe uuid1 (Some ''EXT_JOURNAL'') = Inr (0, pr')"
    "nvals pr' = 1" "v_name (vals pr' ! 0) = Some ''EXT_JOURNAL''" by auto
  then show ?thesis by (simp add: zero_probe_def)
qed

subsection \<open>Labels\<close>

lemma strip_trailing_snoc:
  "strip_trailing (xs @ [x]) = (if isspace x then strip_trailing xs else xs @ [x])"
  by (simp add: strip_trailing_def)

lemma strip_trailing_prefix: "take (length (strip_trailing xs)) xs = strip_trailing xs"
proof (induction xs rule: rev_induct)
  case Nil
  show ?case by (simp add: strip_trailing_def)
next
  case (snoc x xs)
  have "length (strip_trailing xs) \<le> length xs"
    by (simp add: strip_trailing_def length_dropWhile_le [of isspace "rev xs", simplified])
  with snoc show ?case by (simp add: strip_trailing_snoc)
qed

lemma length_strip_trailing: "length (strip_trailing xs) \<le> length xs"
  by (simp add: strip_trailing_def length_dropWhile_le [of isspace "rev xs", simplified])

lemma strip_end_eq: "k \<le> length d \<Longrightarrow> strip_end d k = length (strip_trailing (take k d))"
proof (induction k)
  case 0
  show ?case by (simp add: strip_trailing_def)
next
  case (Suc k)
  then have "take (Suc k) d = take k d @ [d ! k]" by (simp add: take_Suc_conv_app_nth)
  with Suc show ?case by (simp add: strip_trailing_snoc)
qed

lemma take_length_takeWhile: "take (length (takeWhile P xs)) xs = takeWhile P xs"
  by (induction xs) simp_all

lemma label_strip:
  assumes lt: "length label < length old"
  defines "d2 \<equiv> (store_at0 old label)[length label := 0]"
  defines "i \<equiv> strip_end d2 (strnlen d2 (length label))"
  shows "take (i + 1) (d2[i := 0]) = strip_trailing (c_string label) @ [0]"
proof -
  have d2: "d2 = label @ 0 # drop (Suc (length label)) old"
    using lt by (simp add: d2_def store_at0_fits list_update_append upd_conv_take_nth_drop
        drop_Suc [symmetric] Cons_nth_drop_Suc)
  have k: "strnlen d2 (length label) = length (c_string label)"
    by (simp add: strnlen_def d2 c_string_def)
  have kl: "length (c_string label) \<le> length label"
    by (simp add: c_string_def length_takeWhile_le)
  have tk: "take (length (c_string label)) d2 = c_string label"
    using kl by (simp add: d2 c_string_def take_length_takeWhile)
  have ld: "length d2 = length old" by (simp add: d2_def)
  have i: "i = length (strip_trailing (c_string label))"
    unfolding i_def k using strip_end_eq [of "length (c_string label)" d2] kl lt ld tk by simp
  have il: "i \<le> length (c_string label)" unfolding i by (rule length_strip_trailing)
  have "take i d2 = take i (take (length (c_string label)) d2)" using il by (simp add: min_def)
  also have "\<dots> = strip_trailing (c_string label)" unfolding tk i by (rule strip_trailing_prefix)
  finally have ti: "take i d2 = strip_trailing (c_string label)" .
  have "i < length d2" using il kl lt ld by simp
  then have "take (i + 1) (d2[i := 0]) = take i d2 @ [0]"
    by (simp add: take_Suc_conv_app_nth)
  with ti show ?thesis by simp
qed

lemma set_value_room:
  "nvals pr < BLKID_PROBVAL_NVALS \<Longrightarrow> length d \<le> BLKID_PROBVAL_BUFSIZ \<Longrightarrow>
   blkid_probe_set_value pr (Some nm) d =
     (0, val_upd ((val_upd pr (nvals pr) (\<lambda>e. e\<lparr>v_name := Some nm\<rparr>))\<lparr>nvals := nvals pr + 1\<rparr>)
           (nvals pr) (\<lambda>e. e\<lparr>v_data := store_at0 (v_data e) d, v_len := length d\<rparr>))"
  by (simp add: blkid_probe_set_value_def assign_value_room Let_def)

text \<open>Two free slots and a label that fits with its terminator: both tags are stored.\<close>

lemma set_label_both:
  assumes raw: "probreq pr AND BLKID_PROBREQ_LABELRAW \<noteq> 0"
    and lab: "probreq pr AND BLKID_PROBREQ_LABEL \<noteq> 0"
    and room: "nvals pr + 2 \<le> BLKID_PROBVAL_NVALS"
    and wf: "vals_wf pr"
    and len: "length label < BLKID_PROBVAL_BUFSIZ"
  shows "\<exists>pr'. blkid_probe_set_label pr label = Inr (0, pr') \<and>
         nvals pr' = nvals pr + 2 \<and>
         take (nvals pr) (vals pr') = take (nvals pr) (vals pr) \<and>
         v_name (vals pr' ! nvals pr) = Some ''LABEL_RAW'' \<and>
         prval_bytes (vals pr' ! nvals pr) = label \<and>
         v_name (vals pr' ! (nvals pr + 1)) = Some ''LABEL'' \<and>
         prval_bytes (vals pr' ! (nvals pr + 1)) = strip_trailing (c_string label) @ [0]"
proof -
  let ?v = "nvals pr"
  define g :: "blkid_prval \<Rightarrow> blkid_prval" where "g = (\<lambda>e. let d1 = store_at0 (v_data e) (take (length label) label);
                                  d2 = d1[length label := 0];
                                  i = strip_end d2 (strnlen d2 (length label))
                              in e\<lparr>v_data := d2[i := 0], v_len := i + 1\<rparr>)"
  define pr1 where "pr1 = val_upd ((val_upd pr ?v (\<lambda>e. e\<lparr>v_name := Some ''LABEL_RAW''\<rparr>))\<lparr>nvals := ?v + 1\<rparr>)
           ?v (\<lambda>e. e\<lparr>v_data := store_at0 (v_data e) label, v_len := length label\<rparr>)"
  define pr' where "pr' = val_upd ((val_upd pr1 (?v + 1) (\<lambda>e. e\<lparr>v_name := Some ''LABEL''\<rparr>))\<lparr>nvals := ?v + 2\<rparr>)
           (?v + 1) g"
  have lv: "?v < length (vals pr)" "?v + 1 < length (vals pr)" using room wf by (simp_all add: vals_wf_def)
  have r0: "?v < BLKID_PROBVAL_NVALS" "?v + 1 < BLKID_PROBVAL_NVALS" using room by simp_all
  have sv: "blkid_probe_set_value pr (Some ''LABEL_RAW'') label = (0, pr1)"
    using set_value_room [OF r0(1), of label "''LABEL_RAW''"] len by (simp add: pr1_def)
  have p1: "probreq pr1 = probreq pr" "nvals pr1 = ?v + 1" by (simp_all add: pr1_def)
  have as: "blkid_probe_assign_value pr1 (Some ''LABEL'') =
      (Some (?v + 1), (val_upd pr1 (?v + 1) (\<lambda>e. e\<lparr>v_name := Some ''LABEL''\<rparr>))\<lparr>nvals := ?v + 2\<rparr>)"
    using assign_value_room [of pr1 "''LABEL''"] r0 p1 by simp
  have res: "blkid_probe_set_label pr label = Inr (0, pr')"
    using raw lab len sv as p1
    by (simp add: blkid_probe_set_label_def Let_def pr'_def g_def)
  have e0: "vals pr' ! ?v = (vals pr ! ?v)\<lparr>v_name := Some ''LABEL_RAW'',
                 v_data := store_at0 (v_data (vals pr ! ?v)) label, v_len := length label\<rparr>"
    using lv by (simp add: pr'_def pr1_def val_upd_def)
  have e1: "vals pr' ! (?v + 1) = g ((vals pr ! (?v + 1))\<lparr>v_name := Some ''LABEL''\<rparr>)"
    using lv by (simp add: pr'_def pr1_def val_upd_def)
  have ld: "length (v_data (vals pr ! ?v)) = BLKID_PROBVAL_BUFSIZ"
    "length (v_data (vals pr ! (?v + 1))) = BLKID_PROBVAL_BUFSIZ"
    using vals_wf_data [OF wf] r0 by simp_all
  have raw_bytes: "prval_bytes (vals pr' ! ?v) = label"
    unfolding e0 using ld len by (simp add: prval_bytes_def store_at0_fits)
  have "prval_bytes (g x) = strip_trailing (c_string label) @ [0]"
    if "length (v_data x) = BLKID_PROBVAL_BUFSIZ" for x
    using label_strip [of label "v_data x"] that len
    by (simp add: g_def Let_def prval_bytes_def)
  from this [of "(vals pr ! (?v + 1))\<lparr>v_name := Some ''LABEL''\<rparr>"] ld
  have lab_bytes: "prval_bytes (vals pr' ! (?v + 1)) = strip_trailing (c_string label) @ [0]"
    by (simp only: e1) simp
  have n1: "v_name (vals pr' ! (?v + 1)) = Some ''LABEL''"
    unfolding e1 by (simp add: g_def Let_def)
  have n0: "v_name (vals pr' ! ?v) = Some ''LABEL_RAW''" unfolding e0 by simp
  have tk: "take ?v (vals pr') = take ?v (vals pr)" by (simp add: pr'_def pr1_def val_upd_def)
  have nv: "nvals pr' = ?v + 2" by (simp add: pr'_def)
  show ?thesis using res raw_bytes lab_bytes n0 n1 tk nv by blast
qed

text \<open>
  One free slot: \<open>LABEL_RAW\<close> takes it, the slot for \<open>LABEL\<close> is refused, and the call
  returns -1 with the raw tag left in the store.
\<close>

lemma set_label_one_slot:
  assumes raw: "probreq pr AND BLKID_PROBREQ_LABELRAW \<noteq> 0"
    and lab: "probreq pr AND BLKID_PROBREQ_LABEL \<noteq> 0"
    and room: "nvals pr + 1 = BLKID_PROBVAL_NVALS"
    and wf: "vals_wf pr"
    and len: "length label \<le> BLKID_PROBVAL_BUFSIZ"
  shows "\<exists>pr'. blkid_probe_set_label pr label = Inr (-1, pr') \<and>
         nvals pr' = nvals pr + 1 \<and>
         take (nvals pr) (vals pr') = take (nvals pr) (vals pr) \<and>
         v_name (vals pr' ! nvals pr) = Some ''LABEL_RAW'' \<and>
         prval_bytes (vals pr' ! nvals pr) = label"
proof -
  let ?v = "nvals pr"
  define pr1 where "pr1 = val_upd ((val_upd pr ?v (\<lambda>e. e\<lparr>v_name := Some ''LABEL_RAW''\<rparr>))\<lparr>nvals := ?v + 1\<rparr>)
           ?v (\<lambda>e. e\<lparr>v_data := store_at0 (v_data e) label, v_len := length label\<rparr>)"
  have r0: "?v < BLKID_PROBVAL_NVALS" using room by simp
  have lv: "?v < length (vals pr)" using room wf by (simp add: vals_wf_def)
  have sv: "blkid_probe_set_value pr (Some ''LABEL_RAW'') label = (0, pr1)"
    using set_value_room [OF r0 len, of "''LABEL_RAW''"] by (simp add: pr1_def)
  have p1: "probreq pr1 = probreq pr" "nvals pr1 = ?v + 1" by (simp_all add: pr1_def)
  have full: "BLKID_PROBVAL_NVALS \<le> nvals pr1" using p1 room by simp
  have as: "blkid_probe_assign_value pr1 (Some ''LABEL'') = (None, pr1)"
    by (rule assign_value_full [OF full])
  have res: "blkid_probe_set_label pr label = Inr (-1, pr1)"
    using raw lab len sv as p1 by (simp add: blkid_probe_set_label_def Let_def)
  have e0: "vals pr1 ! ?v = (vals pr ! ?v)\<lparr>v_name := Some ''LABEL_RAW'',
                 v_data := store_at0 (v_data (vals pr ! ?v)) label, v_len := length label\<rparr>"
    using lv by (simp add: pr1_def val_upd_def)
  have ld: "length (v_data (vals pr ! ?v)) = BLKID_PROBVAL_BUFSIZ"
    using vals_wf_data [OF wf r0] by simp
  have raw_bytes: "prval_bytes (vals pr1 ! ?v) = label"
    unfolding e0 using ld len by (simp add: prval_bytes_def store_at0_fits)
  have n0: "v_name (vals pr1 ! ?v) = Some ''LABEL_RAW''" unfolding e0 by simp
  have tk: "take ?v (vals pr1) = take ?v (vals pr)" by (simp add: pr1_def val_upd_def)
  show ?thesis using res raw_bytes n0 tk p1(2) by blast
qed

text \<open>
  A label of \<open>BLKID_PROBVAL_BUFSIZ\<close> bytes or more, with a slot for \<open>LABEL\<close>: the
  terminator is stored one byte past the value array.
\<close>

lemma set_label_overflow:
  assumes raw: "probreq pr AND BLKID_PROBREQ_LABELRAW \<noteq> 0"
    and lab: "probreq pr AND BLKID_PROBREQ_LABEL \<noteq> 0"
    and room: "nvals pr + 2 \<le> BLKID_PROBVAL_NVALS"
    and len: "BLKID_PROBVAL_BUFSIZ \<le> length label"
  shows "blkid_probe_set_label pr label = Inl Out_of_bounds"
proof -
  let ?v = "nvals pr"
  let ?d = "take BLKID_PROBVAL_BUFSIZ label"
  define pr1 where "pr1 = val_upd ((val_upd pr ?v (\<lambda>e. e\<lparr>v_name := Some ''LABEL_RAW''\<rparr>))\<lparr>nvals := ?v + 1\<rparr>)
           ?v (\<lambda>e. e\<lparr>v_data := store_at0 (v_data e) ?d, v_len := length ?d\<rparr>)"
  have r0: "?v < BLKID_PROBVAL_NVALS" "?v + 1 < BLKID_PROBVAL_NVALS" using room by simp_all
  have ld: "length ?d \<le> BLKID_PROBVAL_BUFSIZ" by simp
  have sv: "blkid_probe_set_value pr (Some ''LABEL_RAW'') ?d = (0, pr1)"
    using set_value_room [OF r0(1) ld, of "''LABEL_RAW''"] by (simp add: pr1_def)
  have p1: "probreq pr1 = probreq pr" "nvals pr1 = ?v + 1" by (simp_all add: pr1_def)
  have as: "blkid_probe_assign_value pr1 (Some ''LABEL'') =
      (Some (?v + 1), (val_upd pr1 (?v + 1) (\<lambda>e. e\<lparr>v_name := Some ''LABEL''\<rparr>))\<lparr>nvals := ?v + 2\<rparr>)"
    using assign_value_room [of pr1 "''LABEL''"] r0 p1 by simp
  have l: "(if BLKID_PROBVAL_BUFSIZ < length label then BLKID_PROBVAL_BUFSIZ else length label)
             = BLKID_PROBVAL_BUFSIZ"
    using len by simp
  show ?thesis
    using raw lab sv as p1 by (simp add: blkid_probe_set_label_def Let_def l)
qed

text \<open>
  C6 (as the code has it).  Let both \<open>LABEL\<close> and \<open>LABEL_RAW\<close> be requested and the raw
  label be shorter than \<open>BLKID_PROBVAL_BUFSIZ\<close> bytes, so that it fits an entry together
  with its terminator.

  \<^item> With two free slots \<^verbatim>\<open>blkid_probe_set_label\<close> returns 0 and appends two tags,
    leaving the earlier ones as they were: \<open>LABEL_RAW\<close> holds the input byte for byte,
    and \<open>LABEL\<close> holds the NUL-terminated string of the input with its trailing white
    space removed, followed by its terminator.
  \<^item> With one free slot it returns -1 and appends \<open>LABEL_RAW\<close> alone.
  \<^item> With a full store it returns -1 and leaves the session as it was.
\<close>

theorem set_label_raw_and_stripped:
  assumes "probreq pr AND BLKID_PROBREQ_LABELRAW \<noteq> 0"
    and "probreq pr AND BLKID_PROBREQ_LABEL \<noteq> 0"
    and "vals_wf pr"
    and "length label < BLKID_PROBVAL_BUFSIZ"
  shows "(nvals pr + 2 \<le> BLKID_PROBVAL_NVALS \<longrightarrow>
           (\<exists>pr'. blkid_probe_set_label pr label = Inr (0, pr') \<and>
              nvals pr' = nvals pr + 2 \<and>
              take (nvals pr) (vals pr') = take (nvals pr) (vals pr) \<and>
              v_name (vals pr' ! nvals pr) = Some ''LABEL_RAW'' \<and>
              prval_bytes (vals pr' ! nvals pr) = label \<and>
              v_name (vals pr' ! (nvals pr + 1)) = Some ''LABEL'' \<and>
              prval_bytes (vals pr' ! (nvals pr + 1)) = strip_trailing (c_string label) @ [0])) \<and>
         (nvals pr + 1 = BLKID_PROBVAL_NVALS \<longrightarrow>
           (\<exists>pr'. blkid_probe_set_label pr label = Inr (-1, pr') \<and>
              nvals pr' = nvals pr + 1 \<and>
              take (nvals pr) (vals pr') = take (nvals pr) (vals pr) \<and>
              v_name (vals pr' ! nvals pr) = Some ''LABEL_RAW'' \<and>
              prval_bytes (vals pr' ! nvals pr) = label)) \<and>
         (BLKID_PROBVAL_NVALS \<le> nvals pr \<longrightarrow> blkid_probe_set_label pr label = Inr (-1, pr))"
proof (intro conjI impI)
  assume "nvals pr + 2 \<le> BLKID_PROBVAL_NVALS"
  from set_label_both [OF assms(1,2) this assms(3,4)]
  show "\<exists>pr'. blkid_probe_set_label pr label = Inr (0, pr') \<and>
              nvals pr' = nvals pr + 2 \<and>
              take (nvals pr) (vals pr') = take (nvals pr) (vals pr) \<and>
              v_name (vals pr' ! nvals pr) = Some ''LABEL_RAW'' \<and>
              prval_bytes (vals pr' ! nvals pr) = label \<and>
              v_name (vals pr' ! (nvals pr + 1)) = Some ''LABEL'' \<and>
              prval_bytes (vals pr' ! (nvals pr + 1)) = strip_trailing (c_string label) @ [0]" .
next
  assume "nvals pr + 1 = BLKID_PROBVAL_NVALS"
  from set_label_one_slot [OF assms(1,2) this assms(3)] assms(4)
  show "\<exists>pr'. blkid_probe_set_label pr label = Inr (-1, pr') \<and>
              nvals pr' = nvals pr + 1 \<and>
              take (nvals pr) (vals pr') = take (nvals pr) (vals pr) \<and>
              v_name (vals pr' ! nvals pr) = Some ''LABEL_RAW'' \<and>
              prval_bytes (vals pr' ! nvals pr) = label" by simp
next
  assume "BLKID_PROBVAL_NVALS \<le> nvals pr"
  then show "blkid_probe_set_label pr label = Inr (-1, pr)"
    using assms(1) by (simp add: set_label_full)
qed

text \<open>The label \<^verbatim>\<open>"ROOT   \0"\<close> of the specification.\<close>

theorem set_label_raw_and_stripped_witness:
  "\<not> isl (blkid_probe_set_label label_probe (bytes_of ''ROOT   '' @ [0])) \<and>
   fst (projr (blkid_probe_set_label label_probe (bytes_of ''ROOT   '' @ [0]))) = 0 \<and>
   nvals (snd (projr (blkid_probe_set_label label_probe (bytes_of ''ROOT   '' @ [0])))) = 2 \<and>
   prval_bytes (vals (snd (projr (blkid_probe_set_label label_probe (bytes_of ''ROOT   '' @ [0])))) ! 0)
     = bytes_of ''ROOT   '' @ [0] \<and>
   prval_bytes (vals (snd (projr (blkid_probe_set_label label_probe (bytes_of ''ROOT   '' @ [0])))) ! 1)
     = bytes_of ''ROOT'' @ [0]"
proof -
  have wf: "vals_wf label_probe" using vals_wf_zero_probe by (simp add: vals_wf_def label_probe_def)
  have a: "probreq label_probe AND BLKID_PROBREQ_LABELRAW \<noteq> 0"
    "probreq label_probe AND BLKID_PROBREQ_LABEL \<noteq> 0"
    by (simp_all add: label_probe_def zero_probe_def
        BLKID_PROBREQ_LABEL_def BLKID_PROBREQ_LABELRAW_def)
  have b: "length (bytes_of ''ROOT   '' @ [0]) < BLKID_PROBVAL_BUFSIZ"
    by (simp add: bytes_of_def BLKID_PROBVAL_BUFSIZ_def)
  have n: "nvals label_probe = 0" "nvals label_probe + 2 \<le> BLKID_PROBVAL_NVALS"
    by (simp_all add: label_probe_def zero_probe_def BLKID_PROBVAL_NVALS_def)
  have r: "strip_trailing (c_string (bytes_of ''ROOT   '' @ [0])) = bytes_of ''ROOT''"
    by (simp add: strip_trailing_def c_string_def bytes_of_def isspace_def)
  from set_label_raw_and_stripped [OF a wf b] n
  obtain pr' where "blkid_probe_set_label label_probe (bytes_of ''ROOT   '' @ [0]) = Inr (0, pr')"
    "nvals pr' = 2" "prval_bytes (vals pr' ! 0) = bytes_of ''ROOT   '' @ [0]"
    "prval_bytes (vals pr' ! 1) = strip_trailing (c_string (bytes_of ''ROOT   '' @ [0])) @ [0]"
    by auto
  then show ?thesis using r by simp
qed

text \<open>
  The claim as the specification words it, for every raw label, fails where the store
  or the entry is too small.  With fifteen tags in a store of sixteen the label
  \<^verbatim>\<open>"ROOT   \0"\<close> is refused with -1 and only \<open>LABEL_RAW\<close> is appended: no \<open>LABEL\<close>
  is emitted.  With an empty store, a label of 256 bytes has its terminator stored
  past the end of the value array.
\<close>

theorem set_label_capacity_counterexample:
  "\<not> isl (blkid_probe_set_label (label_probe\<lparr>nvals := 15\<rparr>) (bytes_of ''ROOT   '' @ [0])) \<and>
   fst (projr (blkid_probe_set_label (label_probe\<lparr>nvals := 15\<rparr>) (bytes_of ''ROOT   '' @ [0]))) = -1 \<and>
   nvals (snd (projr (blkid_probe_set_label (label_probe\<lparr>nvals := 15\<rparr>) (bytes_of ''ROOT   '' @ [0]))))
     = BLKID_PROBVAL_NVALS \<and>
   v_name (vals (snd (projr (blkid_probe_set_label (label_probe\<lparr>nvals := 15\<rparr>)
                               (bytes_of ''ROOT   '' @ [0])))) ! 15) = Some ''LABEL_RAW'' \<and>
   blkid_probe_set_label label_probe (replicate 256 0x41) = Inl Out_of_bounds"
proof -
  have wf: "vals_wf (label_probe\<lparr>nvals := 15\<rparr>)"
    using vals_wf_zero_probe by (simp add: vals_wf_def label_probe_def)
  have a: "probreq (label_probe\<lparr>nvals := 15\<rparr>) AND BLKID_PROBREQ_LABELRAW \<noteq> 0"
    "probreq (label_probe\<lparr>nvals := 15\<rparr>) AND BLKID_PROBREQ_LABEL \<noteq> 0"
    "probreq label_probe AND BLKID_PROBREQ_LABELRAW \<noteq> 0"
    "probreq label_probe AND BLKID_PROBREQ_LABEL \<noteq> 0"
    by (simp_all add: label_probe_def zero_probe_def
        BLKID_PROBREQ_LABEL_def BLKID_PROBREQ_LABELRAW_def)
  have n: "nvals (label_probe\<lparr>nvals := 15\<rparr>) + 1 = BLKID_PROBVAL_NVALS"
    "nvals label_probe + 2 \<le> BLKID_PROBVAL_NVALS"
    by (simp_all add: label_probe_def zero_probe_def BLKID_PROBVAL_NVALS_def)
  have b: "length (bytes_of ''ROOT   '' @ [0]) \<le> BLKID_PROBVAL_BUFSIZ"
    "BLKID_PROBVAL_BUFSIZ \<le> length (replicate 256 (0x41 :: byte))"
    by (simp_all add: bytes_of_def BLKID_PROBVAL_BUFSIZ_def)
  from set_label_one_slot [OF a(1,2) n(1) wf b(1)]
  obtain pr' where
    "blkid_probe_set_label (label_probe\<lparr>nvals := 15\<rparr>) (bytes_of ''ROOT   '' @ [0]) = Inr (-1, pr')"
    "nvals pr' = 16" "v_name (vals pr' ! 15) = Some ''LABEL_RAW''"
    by auto
  moreover have "blkid_probe_set_label label_probe (replicate 256 0x41) = Inl Out_of_bounds"
    by (rule set_label_overflow [OF a(3,4) n(2) b(2)])
  ultimately show ?thesis by (simp add: BLKID_PROBVAL_NVALS_def)
qed

subsection \<open>Formatted UUIDs\<close>

lemma vsprintf_value_room:
  "nvals pr < BLKID_PROBVAL_NVALS \<Longrightarrow> va_out ap \<noteq> [] \<Longrightarrow>
   blkid_probe_vsprintf_value pr (Some nm) fmt ap =
     (0, val_upd (val_upd ((val_upd pr (nvals pr) (\<lambda>e. e\<lparr>v_name := Some nm\<rparr>))\<lparr>nvals := nvals pr + 1\<rparr>)
                    (nvals pr)
                    (\<lambda>e. e\<lparr>v_data := store_at0 (v_data e)
                                         (snprintf_bytes BLKID_PROBVAL_BUFSIZ (va_out ap))\<rparr>))
           (nvals pr) (\<lambda>e. e\<lparr>v_len := length (va_out ap) + 1\<rparr>))"
  by (simp add: blkid_probe_vsprintf_value_def assign_value_room Let_def)

text \<open>
  The formatted branch of \<^verbatim>\<open>blkid_probe_sprintf_uuid\<close>: the entry it has just filled is
  \<^verbatim>\<open>vals[nvals - 1]\<close>, the closing loop works on \<^verbatim>\<open>vals[nvals]\<close>, and the text stays
  as it was formatted.
\<close>

lemma sprintf_uuid_formatted:
  assumes room: "nvals pr + 1 < BLKID_PROBVAL_NVALS" and wf: "vals_wf pr"
    and uu: "probreq pr AND BLKID_PROBREQ_UUID \<noteq> 0" and ur: "probreq pr AND BLKID_PROBREQ_UUIDRAW = 0"
    and nz: "\<not> uuid_is_empty uuid (length uuid)" "length uuid \<le> BLKID_PROBVAL_BUFSIZ"
    and fmt: "fmt \<noteq> ''%s''" and out: "va_out ap \<noteq> []" "length (va_out ap) < BLKID_PROBVAL_BUFSIZ"
  shows "\<exists>pr'. blkid_probe_sprintf_uuid pr uuid fmt ap = Inr (0, pr') \<and>
           nvals pr' = nvals pr + 1 \<and>
           v_name (vals pr' ! nvals pr) = Some ''UUID'' \<and>
           prval_bytes (vals pr' ! nvals pr) = va_out ap @ [0]"
proof -
  let ?v = "nvals pr"
  define pr2 where "pr2 = val_upd (val_upd ((val_upd pr ?v (\<lambda>e. e\<lparr>v_name := Some ''UUID''\<rparr>))\<lparr>nvals := ?v + 1\<rparr>)
                    ?v
                    (\<lambda>e. e\<lparr>v_data := store_at0 (v_data e)
                                         (snprintf_bytes BLKID_PROBVAL_BUFSIZ (va_out ap))\<rparr>))
           ?v (\<lambda>e. e\<lparr>v_len := length (va_out ap) + 1\<rparr>)"
  have r0: "?v < BLKID_PROBVAL_NVALS" using room by simp
  have lv: "?v < length (vals pr)" using room wf by (simp add: vals_wf_def)
  have vs: "blkid_probe_vsprintf_value pr (Some ''UUID'') fmt ap = (0, pr2)"
    using vsprintf_value_room [OF r0 out(1)] by (simp add: pr2_def)
  have n2: "nvals pr2 = ?v + 1" by (simp add: pr2_def)
  have res: "blkid_probe_sprintf_uuid pr uuid fmt ap = Inr (0, val_upd pr2 (?v + 1) lower_entry)"
    using uu ur nz fmt vs n2 room
    by (simp add: blkid_probe_sprintf_uuid_def Let_def)
  have e: "vals (val_upd pr2 (?v + 1) lower_entry) ! ?v =
      (vals pr ! ?v)\<lparr>v_name := Some ''UUID'',
         v_data := store_at0 (v_data (vals pr ! ?v)) (snprintf_bytes BLKID_PROBVAL_BUFSIZ (va_out ap)),
         v_len := length (va_out ap) + 1\<rparr>"
    using lv by (simp add: pr2_def val_upd_def)
  have ld: "length (v_data (vals pr ! ?v)) = BLKID_PROBVAL_BUFSIZ" by (rule vals_wf_data [OF wf r0])
  have sn: "snprintf_bytes BLKID_PROBVAL_BUFSIZ (va_out ap) = va_out ap @ [0]"
    using out(2) by (simp add: snprintf_bytes_def)
  have pb: "prval_bytes (vals (val_upd pr2 (?v + 1) lower_entry) ! ?v) = va_out ap @ [0]"
    unfolding e sn using ld out(2) by (simp add: prval_bytes_def store_at0_def)
  have nm: "v_name (vals (val_upd pr2 (?v + 1) lower_entry) ! ?v) = Some ''UUID''"
    unfolding e by simp
  show ?thesis using res pb nm n2 by simp
qed

text \<open>
  C4.  A vfat-style call that formats the two bytes \<open>0A 0B\<close> with \<^verbatim>\<open>%02X%02X\<close> on a
  fresh session that requests \<open>UUID\<close> succeeds, and the \<open>UUID\<close> tag it stores reads
  \<^verbatim>\<open>0A0B\<close>: the letters \<open>A\<close> and \<open>B\<close> are still upper case.  The closing loop would
  have made them \<^verbatim>\<open>0a0b\<close>, had it run on the entry that was filled.
\<close>

theorem sprintf_uuid_keeps_upper_case:
  "\<not> isl (blkid_probe_sprintf_uuid uuid_probe [0x0A, 0x0B] ''%02X%02X''
             \<lparr>va_str = None, va_out = bytes_of ''0A0B''\<rparr>) \<and>
   fst (projr (blkid_probe_sprintf_uuid uuid_probe [0x0A, 0x0B] ''%02X%02X''
             \<lparr>va_str = None, va_out = bytes_of ''0A0B''\<rparr>)) = 0 \<and>
   v_name (vals (snd (projr (blkid_probe_sprintf_uuid uuid_probe [0x0A, 0x0B] ''%02X%02X''
             \<lparr>va_str = None, va_out = bytes_of ''0A0B''\<rparr>))) ! 0) = Some ''UUID'' \<and>
   prval_bytes (vals (snd (projr (blkid_probe_sprintf_uuid uuid_probe [0x0A, 0x0B] ''%02X%02X''
             \<lparr>va_str = None, va_out = bytes_of ''0A0B''\<rparr>))) ! 0) = [0x30, 0x41, 0x30, 0x42, 0] \<and>
   map lower_AF [0x30, 0x41, 0x30, 0x42, 0] = [0x30, 0x61, 0x30, 0x62, 0]"
proof -
  have wf: "vals_wf uuid_probe" using vals_wf_zero_probe by (simp add: vals_wf_def uuid_probe_def)
  have a: "nvals uuid_probe + 1 < BLKID_PROBVAL_NVALS" "nvals uuid_probe = 0"
    "probreq uuid_probe AND BLKID_PROBREQ_UUID \<noteq> 0" "probreq uuid_probe AND BLKID_PROBREQ_UUIDRAW = 0"
    by (simp_all add: uuid_probe_def zero_probe_def BLKID_PROBVAL_NVALS_def BLKID_PROBREQ_UUID_def
        BLKID_PROBREQ_UUIDRAW_def)
  have b: "\<not> uuid_is_empty [0x0A, 0x0B] (length [0x0A, 0x0B :: byte])"
    "length [0x0A, 0x0B :: byte] \<le> BLKID_PROBVAL_BUFSIZ" "''%02X%02X'' \<noteq> ''%s''"
    by (simp_all add: uuid_is_empty_def BLKID_PROBVAL_BUFSIZ_def)
  have c: "va_out \<lparr>va_str = None, va_out = bytes_of ''0A0B''\<rparr> \<noteq> []"
    "length (va_out \<lparr>va_str = None, va_out = bytes_of ''0A0B''\<rparr>) < BLKID_PROBVAL_BUFSIZ"
    by (simp_all add: bytes_of_def BLKID_PROBVAL_BUFSIZ_def)
  from sprintf_uuid_formatted [OF a(1) wf a(3,4) b c] a(2)
  obtain pr' where "blkid_probe_sprintf_uuid uuid_probe [0x0A, 0x0B] ''%02X%02X''
             \<lparr>va_str = None, va_out = bytes_of ''0A0B''\<rparr> = Inr (0, pr')"
    "v_name (vals pr' ! 0) = Some ''UUID''" "prval_bytes (vals pr' ! 0) = bytes_of ''0A0B'' @ [0]"
    by auto
  then show ?thesis by (simp add: bytes_of_def lower_AF_def)
qed


subsection \<open>The tag store after the dispatch loop\<close>

lemma get_buffer_nvals: "nvals (snd (blkid_probe_get_buffer s pr ofs n)) = nvals pr"
proof -
  have a: "sb_alloc s pr = Some q \<Longrightarrow> nvals q = nvals pr" for q pr
    by (auto simp: sb_alloc_def split: option.splits)
  have b: "sb_fill s pr = Some q \<Longrightarrow> nvals q = nvals pr" for q pr
    by (cases "sys_read s (off pr) BLKID_SB_BUFSIZ") (auto simp: sb_fill_def Let_def split: if_splits)
  have c: "buf_grow s pr n = Some (nb, q) \<Longrightarrow> nvals q = nvals pr" for q nb pr
    by (auto simp: buf_grow_def split: option.splits if_splits)
  have d: "nvals (snd (buf_read s pr ofs n)) = nvals pr" for pr
    by (cases "sys_read s (wrap64 (off pr + ofs)) n")
       (simp add: buf_read_def buf_ptr_def Let_def split: option.splits)
  have e: "nvals (snd (buf_ptr pr ofs)) = nvals pr" for pr
    by (simp add: buf_ptr_def split: option.splits)
  show ?thesis
    by (auto simp: blkid_probe_get_buffer_def d e split: option.splits dest!: a b c)
qed

lemma find_magic_nvals: "nvals (snd (find_magic s pr ms)) = nvals pr"
proof (induction ms arbitrary: pr)
  case Nil
  show ?case by simp
next
  case (Cons m ms)
  have g: "blkid_probe_get_buffer s pr k 1024 = (b, q) \<Longrightarrow> nvals q = nvals pr" for k b q
    using get_buffer_nvals [of s pr k 1024] by simp
  show ?case by (auto simp: Let_def Cons.IH split: option.splits prod.splits dest: g)
qed

text \<open>
  A pass of the loop that goes on to the next descriptor leaves the number of tags as
  it found it, unless it called the probing function and that function, rejecting,
  returned a session with another number of tags.
\<close>

lemma probe_body_Continue_cases:
  assumes c: "probe_body idinfos s pr i = Continue pr'"
  shows "nvals pr' = nvals pr \<or>
         (\<exists>f pr2 mag. probefunc (idinfos ! i) = Some f \<and> nvals pr2 = nvals pr \<and>
            fst (f s pr2 mag) \<noteq> 0 \<and> pr' = snd (f s pr2 mag))"
proof (cases "case fltr pr of None \<Rightarrow> False | Some f \<Rightarrow> blkid_bmp_get_item f i \<noteq> 0")
  case True
  then show ?thesis using c by (auto simp: probe_body_def Let_def)
next
  case False
  define d where "d = idinfos ! i"
  obtain mag pr2 where m: "(case magics d of None \<Rightarrow> (None, pr\<lparr>idx := i\<rparr>)
                      | Some ms \<Rightarrow> find_magic s (pr\<lparr>idx := i\<rparr>) ms) = (mag, pr2)"
    by (cases "(case magics d of None \<Rightarrow> (None, pr\<lparr>idx := i\<rparr>)
                      | Some ms \<Rightarrow> find_magic s (pr\<lparr>idx := i\<rparr>) ms)")
  have n2: "nvals pr2 = nvals pr"
  proof (cases "magics d")
    case None
    then show ?thesis using m by auto
  next
    case (Some ms)
    then have "snd (find_magic s (pr\<lparr>idx := i\<rparr>) ms) = pr2" using m by simp
    then show ?thesis using find_magic_nvals [of s "pr\<lparr>idx := i\<rparr>" ms] by simp
  qed
  have pb: "probe_body idinfos s pr i =
      (if magics d \<noteq> None \<and> mag = None then Continue pr2
       else (case probefunc d of
               None \<Rightarrow> Matched (probe_matched d pr2)
             | Some f \<Rightarrow> (case f s pr2 mag of
                           (rc, pr3) \<Rightarrow> if rc \<noteq> 0 then Continue pr3
                                        else Matched (probe_matched d pr3))))"
    using False m by (simp add: probe_body_def Let_def d_def [symmetric])
  show ?thesis
  proof (cases "magics d \<noteq> None \<and> mag = None")
    case True
    then have "probe_body idinfos s pr i = Continue pr2" unfolding pb by (rule if_P)
    then show ?thesis using c n2 by simp
  next
    case nm: False
    then have pb2: "probe_body idinfos s pr i =
        (case probefunc d of
               None \<Rightarrow> Matched (probe_matched d pr2)
             | Some f \<Rightarrow> (case f s pr2 mag of
                           (rc, pr3) \<Rightarrow> if rc \<noteq> 0 then Continue pr3
                                        else Matched (probe_matched d pr3)))"
      unfolding pb by (rule if_not_P)
    show ?thesis
    proof (cases "probefunc d")
      case None
      then show ?thesis using c pb2 by simp
    next
      case (Some f)
      obtain rc pr3 where f: "f s pr2 mag = (rc, pr3)" by (cases "f s pr2 mag")
      have "rc \<noteq> 0 \<and> pr' = pr3"
        using c pb2 Some f by (simp split: if_splits)
      then have "probefunc (idinfos ! i) = Some f \<and> nvals pr2 = nvals pr \<and>
            fst (f s pr2 mag) \<noteq> 0 \<and> pr' = snd (f s pr2 mag)"
        using Some f n2 by (simp add: d_def)
      then show ?thesis by blast
    qed
  qed
qed

text \<open>
  A registry whose probing functions never change the number of tags when they reject
  makes every run tidy.
\<close>

lemma tidy_run_registry:
  assumes tidy: "\<forall>d\<in>set idinfos. \<forall>f s pr m. probefunc d = Some f \<longrightarrow> fst (f s pr m) \<noteq> 0 \<longrightarrow>
                    nvals (snd (f s pr m)) = nvals pr"
  shows "tidy_run idinfos s pr i"
  using tidy
proof (induction idinfos s pr i rule: tidy_run.induct)
  case (1 idinfos s pr i)
  show ?case
  proof (cases "i < length idinfos")
    case False
    then show ?thesis by (subst tidy_run.simps) simp
  next
    case True
    show ?thesis
    proof (cases "probe_body idinfos s pr i")
      case (Continue pr')
      have din: "idinfos ! i \<in> set idinfos" using True by simp
      have "nvals pr' = nvals pr"
        using probe_body_Continue_cases [OF Continue] "1.prems" din by metis
      moreover have "tidy_run idinfos s pr' (i + 1)"
        by (rule "1.IH" [OF True Continue "1.prems"])
      ultimately show ?thesis using True Continue by (subst tidy_run.simps) simp
    next
      case (Matched pr')
      then show ?thesis using True by (subst tidy_run.simps) simp
    qed
  qed
qed

lemma probe_loop_rc: "fst (probe_loop idinfos s pr i) = 0 \<or> fst (probe_loop idinfos s pr i) = 1"
proof (induction idinfos s pr i rule: probe_loop.induct)
  case (1 idinfos s pr i)
  show ?case
  proof (cases "i < length idinfos")
    case False
    then show ?thesis by (subst (1 2) probe_loop.simps) simp
  next
    case True
    show ?thesis
    proof (cases "probe_body idinfos s pr i")
      case (Continue pr')
      then show ?thesis using 1 [OF True Continue] True by (subst (1 2) probe_loop.simps) simp
    next
      case (Matched pr')
      then show ?thesis using True by (subst (1 2) probe_loop.simps) simp
    qed
  qed
qed

text \<open>The loop never takes tags away by itself: an exhausted run ends with what
  the session had plus what its passes left behind.\<close>

lemma probe_loop_left_behind:
  "fst (probe_loop idinfos s pr i) = 1 \<Longrightarrow>
   int (nvals (snd (probe_loop idinfos s pr i))) = int (nvals pr) + left_behind idinfos s pr i"
proof (induction idinfos s pr i rule: probe_loop.induct)
  case (1 idinfos s pr i)
  show ?case
  proof (cases "i < length idinfos")
    case False
    then show ?thesis by (subst probe_loop.simps, subst left_behind.simps) simp
  next
    case True
    show ?thesis
    proof (cases "probe_body idinfos s pr i")
      case (Continue pr')
      have eq: "probe_loop idinfos s pr i = probe_loop idinfos s pr' (i + 1)"
        using True Continue by (subst probe_loop.simps) simp
      have lb: "left_behind idinfos s pr i
                  = (int (nvals pr') - int (nvals pr)) + left_behind idinfos s pr' (i + 1)"
        using True Continue by (subst left_behind.simps) simp
      have "int (nvals (snd (probe_loop idinfos s pr' (i + 1))))
              = int (nvals pr') + left_behind idinfos s pr' (i + 1)"
        using "1.IH" [OF True Continue] "1.prems" eq by simp
      then show ?thesis using eq lb by simp
    next
      case (Matched pr')
      have "probe_loop idinfos s pr i = (0, pr')"
        using True Matched by (subst probe_loop.simps) simp
      then show ?thesis using "1.prems"(1) by simp
    qed
  qed
qed

lemma tidy_run_left_behind: "tidy_run idinfos s pr i \<Longrightarrow> left_behind idinfos s pr i = 0"
proof (induction idinfos s pr i rule: left_behind.induct)
  case (1 idinfos s pr i)
  show ?case
  proof (cases "i < length idinfos")
    case False
    then show ?thesis by (subst left_behind.simps) simp
  next
    case True
    show ?thesis
    proof (cases "probe_body idinfos s pr i")
      case (Continue pr')
      have t: "nvals pr' = nvals pr \<and> tidy_run idinfos s pr' (i + 1)"
        using "1.prems" True Continue by (subst (asm) tidy_run.simps) simp
      have "left_behind idinfos s pr' (i + 1) = 0"
        using "1.IH" [OF True Continue] t by simp
      then show ?thesis using True Continue t by (subst left_behind.simps) simp
    next
      case (Matched pr')
      then show ?thesis using True by (subst left_behind.simps) simp
    qed
  qed
qed

lemma do_probe_rc_cases:
  "blkid_do_probe idinfos s None = (-1, None)"
  "fst (blkid_do_probe idinfos s (Some pr)) = fst (probe_loop idinfos s (blkid_probe_reset_vals pr) 0)"
  "snd (blkid_do_probe idinfos s (Some pr)) = Some (snd (probe_loop idinfos s (blkid_probe_reset_vals pr) 0))"
  by (simp_all add: blkid_do_probe_def Let_def split: prod.splits)

lemma do_probe_exhausted:
  "fst (blkid_do_probe idinfos s (Some pr)) \<noteq> -1 \<and>
   (fst (blkid_do_probe idinfos s (Some pr)) = 1 \<longrightarrow>
      blkid_probe_numof_values (snd (blkid_do_probe idinfos s (Some pr)))
        = left_behind idinfos s (blkid_probe_reset_vals pr) 0 \<and>
      (tidy_run idinfos s (blkid_probe_reset_vals pr) 0 \<longrightarrow>
         blkid_probe_numof_values (snd (blkid_do_probe idinfos s (Some pr))) = 0))"
proof -
  let ?q = "blkid_probe_reset_vals pr"
  have n0: "nvals ?q = 0" by (simp add: blkid_probe_reset_vals_def)
  have a: "fst (probe_loop idinfos s ?q 0) = 1 \<Longrightarrow>
      int (nvals (snd (probe_loop idinfos s ?q 0))) = left_behind idinfos s ?q 0"
    using probe_loop_left_behind [of idinfos s ?q 0] n0 by simp
  have b: "fst (probe_loop idinfos s ?q 0) \<noteq> -1"
    using probe_loop_rc [of idinfos s ?q 0] by auto
  have c: "tidy_run idinfos s ?q 0 \<Longrightarrow> left_behind idinfos s ?q 0 = 0"
    by (rule tidy_run_left_behind)
  show ?thesis using a b c
    by (simp add: do_probe_rc_cases blkid_probe_numof_values_def)
qed

lemma set_value_nvals_room:
  "nvals pr < BLKID_PROBVAL_NVALS \<Longrightarrow> nvals (snd (blkid_probe_set_value pr (Some nm) d)) = nvals pr + 1"
  by (simp add: blkid_probe_set_value_def blkid_probe_assign_value_def Let_def val_upd_def)

text \<open>
  C9 (as the code has it).  The tag store is cleared once, on entry to
  \<^verbatim>\<open>blkid_do_probe\<close>, and the loop discards nothing afterwards.  After a call on a
  session that returns 1, the number of values is the number of tags that the passes of
  this call left behind on their way to the next descriptor; it is 0 when each of these
  passes left the number of tags as it found it, which only a probing function that
  emits a tag and then rejects fails to do (\<open>probe_body_Continue_cases\<close>).  A call on a
  session never returns -1.  The call on the \<^verbatim>\<open>NULL\<close> session returns -1, and
  \<^verbatim>\<open>blkid_probe_numof_values\<close> of \<^verbatim>\<open>NULL\<close> is -1.
\<close>

theorem do_probe_exhausted_no_values:
  "(p = None \<longrightarrow>
      blkid_do_probe idinfos s p = (-1, None) \<and>
      blkid_probe_numof_values (snd (blkid_do_probe idinfos s p)) = -1) \<and>
   (\<forall>pr. p = Some pr \<longrightarrow>
      fst (blkid_do_probe idinfos s p) \<noteq> -1 \<and>
      (fst (blkid_do_probe idinfos s p) = 1 \<longrightarrow>
         blkid_probe_numof_values (snd (blkid_do_probe idinfos s p))
           = left_behind idinfos s (blkid_probe_reset_vals pr) 0 \<and>
         (tidy_run idinfos s (blkid_probe_reset_vals pr) 0 \<longrightarrow>
            blkid_probe_numof_values (snd (blkid_do_probe idinfos s p)) = 0)))"
proof (intro conjI allI impI)
  assume "p = None"
  then show "blkid_do_probe idinfos s p = (-1, None)"
    "blkid_probe_numof_values (snd (blkid_do_probe idinfos s p)) = -1"
    by (simp_all add: do_probe_rc_cases blkid_probe_numof_values_def)
next
  fix pr assume p: "p = Some pr"
  note e = do_probe_exhausted [of idinfos s pr]
  show "fst (blkid_do_probe idinfos s p) \<noteq> -1" using e unfolding p by blast
  assume r: "fst (blkid_do_probe idinfos s p) = 1"
  show "blkid_probe_numof_values (snd (blkid_do_probe idinfos s p))
           = left_behind idinfos s (blkid_probe_reset_vals pr) 0"
    using e r unfolding p by blast
  assume "tidy_run idinfos s (blkid_probe_reset_vals pr) 0"
  then show "blkid_probe_numof_values (snd (blkid_do_probe idinfos s p)) = 0"
    using e r unfolding p by blast
qed

text \<open>
  A prober that emits a tag before rejecting on some devices, but not on the device of
  this call: the call is tidy, and the store is empty after it.
\<close>

theorem do_probe_exhausted_no_values_witness:
  "fst (blkid_do_probe [cond_leaky_prober] dev8 (Some type_probe)) = 1 \<and>
   tidy_run [cond_leaky_prober] dev8 (blkid_probe_reset_vals type_probe) 0 \<and>
   left_behind [cond_leaky_prober] dev8 (blkid_probe_reset_vals type_probe) 0 = 0 \<and>
   blkid_probe_numof_values (snd (blkid_do_probe [cond_leaky_prober] dev8 (Some type_probe))) = 0 \<and>
   fst (blkid_do_probe [cond_leaky_prober] dev8 None) = -1 \<and>
   blkid_probe_numof_values (snd (blkid_do_probe [cond_leaky_prober] dev8 None)) = -1"
proof -
  have b: "probe_body [cond_leaky_prober] dev8 (blkid_probe_reset_vals type_probe) 0
          = Continue ((blkid_probe_reset_vals type_probe)\<lparr>idx := 0\<rparr>)"
    by (simp add: probe_body_def cond_leaky_prober_def Let_def dev8_def
        blkid_probe_reset_vals_def type_probe_def zero_probe_def)
  have r: "fst (blkid_do_probe [cond_leaky_prober] dev8 (Some type_probe)) = 1"
    by (simp add: do_probe_rc_cases probe_loop.simps [of _ _ _ 0] probe_loop.simps [of _ _ _ "Suc 0"] b)
  have t: "tidy_run [cond_leaky_prober] dev8 (blkid_probe_reset_vals type_probe) 0"
    by (simp add: tidy_run.simps [of _ _ _ 0] tidy_run.simps [of _ _ _ "Suc 0"] b)
  note a = do_probe_exhausted_no_values [where p = "Some type_probe" and s = dev8
      and idinfos = "[cond_leaky_prober]"]
  note n = do_probe_exhausted_no_values [where p = None and s = dev8
      and idinfos = "[cond_leaky_prober]"]
  have "blkid_probe_numof_values (snd (blkid_do_probe [cond_leaky_prober] dev8 (Some type_probe))) = 0"
    "left_behind [cond_leaky_prober] dev8 (blkid_probe_reset_vals type_probe) 0 = 0"
    using a r t by auto
  moreover have "fst (blkid_do_probe [cond_leaky_prober] dev8 None) = -1"
    "blkid_probe_numof_values (snd (blkid_do_probe [cond_leaky_prober] dev8 None)) = -1"
    using n by auto
  ultimately show ?thesis using r t by simp
qed

text \<open>
  The claim as the specification words it fails on a registry whose only prober emits a
  tag and then rejects, and on the \<^verbatim>\<open>NULL\<close> session.
\<close>

theorem do_probe_leaves_rejected_tags_counterexample:
  "fst (blkid_do_probe [leaky_prober] dev8 (Some zero_probe)) = 1 \<and>
   blkid_probe_numof_values (snd (blkid_do_probe [leaky_prober] dev8 (Some zero_probe))) = 1 \<and>
   fst (blkid_do_probe [leaky_prober] dev8 None) = -1 \<and>
   blkid_probe_numof_values (snd (blkid_do_probe [leaky_prober] dev8 None)) = -1"
proof -
  let ?q = "(blkid_probe_reset_vals zero_probe)\<lparr>idx := 0\<rparr>"
  have nq: "nvals ?q < BLKID_PROBVAL_NVALS" "nvals ?q = 0" "fltr ?q = None"
    by (simp_all add: blkid_probe_reset_vals_def BLKID_PROBVAL_NVALS_def zero_probe_def)
  have b: "probe_body [leaky_prober] dev8 (blkid_probe_reset_vals zero_probe) 0
      = Continue (snd (blkid_probe_set_value ?q (Some ''SEC_TYPE'') [0x78, 0]))"
    using nq(3) by (simp add: probe_body_def leaky_prober_def Let_def)
  have l: "probe_loop [leaky_prober] dev8 (blkid_probe_reset_vals zero_probe) 0
      = (1, snd (blkid_probe_set_value ?q (Some ''SEC_TYPE'') [0x78, 0]))"
    by (simp add: probe_loop.simps [of _ _ _ 0] probe_loop.simps [of _ _ _ "Suc 0"] b)
  show ?thesis
    using set_value_nvals_room [OF nq(1), of "''SEC_TYPE''" "[0x78, 0]"] nq(2)
    by (simp add: do_probe_rc_cases l blkid_probe_numof_values_def)
qed

subsection \<open>The cursor\<close>

lemma probe_body_idx: "probe_body idinfos s (pr\<lparr>idx := k\<rparr>) i = probe_body idinfos s pr i"
  by (simp add: probe_body_def)

lemma do_probe_ignores_cursor:
  assumes "idinfos \<noteq> []"
  shows "blkid_do_probe idinfos s (Some (pr\<lparr>idx := k\<rparr>)) = blkid_do_probe idinfos s (Some pr)"
proof -
  have l: "0 < length idinfos" using assms by simp
  have r: "blkid_probe_reset_vals (pr\<lparr>idx := k\<rparr>) = (blkid_probe_reset_vals pr)\<lparr>idx := k\<rparr>"
    by (simp add: blkid_probe_reset_vals_def)
  have "probe_loop idinfos s ((blkid_probe_reset_vals pr)\<lparr>idx := k\<rparr>) 0
          = probe_loop idinfos s (blkid_probe_reset_vals pr) 0"
    using l by (subst (1 2) probe_loop.simps) (simp add: probe_body_idx)
  then show ?thesis by (simp add: blkid_do_probe_def Let_def r)
qed

lemma set_value_frame:
  "blkid_probe_reset_vals (snd (blkid_probe_set_value pr nm d)) = blkid_probe_reset_vals pr"
  "fltr (snd (blkid_probe_set_value pr nm d)) = fltr pr"
  "idx (snd (blkid_probe_set_value pr nm d)) = idx pr"
  "probreq (snd (blkid_probe_set_value pr nm d)) = probreq pr"
  by (simp_all add: blkid_probe_set_value_def blkid_probe_assign_value_def val_upd_def
      blkid_probe_reset_vals_def Let_def split: option.splits)

lemma probe_matched_frame:
  "blkid_probe_reset_vals (probe_matched d pr) = blkid_probe_reset_vals pr"
  "fltr (probe_matched d pr) = fltr pr"
  "idx (probe_matched d pr) = idx pr"
  by (simp_all add: probe_matched_def blkid_probe_set_usage_def set_value_frame Let_def)

lemma do_probe_registry3:
  assumes "fltr pr = None"
  shows "blkid_do_probe registry3 s (Some pr) =
           (0, Some (probe_matched first_prober ((blkid_probe_reset_vals pr)\<lparr>idx := 1\<rparr>)))"
proof -
  let ?q = "blkid_probe_reset_vals pr"
  have f: "fltr ?q = None" using assms by (simp add: blkid_probe_reset_vals_def)
  have b0: "probe_body registry3 s ?q 0 = Continue (?q\<lparr>idx := 0\<rparr>)"
    using f by (simp add: probe_body_def registry3_def reject_prober_def Let_def)
  have b1: "probe_body registry3 s (?q\<lparr>idx := 0\<rparr>) (Suc 0) = Matched (probe_matched first_prober (?q\<lparr>idx := Suc 0\<rparr>))"
    using f by (simp add: probe_body_def registry3_def first_prober_def Let_def)
  have l: "length registry3 = 3" by (simp add: registry3_def)
  have "probe_loop registry3 s ?q 0 = (0, probe_matched first_prober (?q\<lparr>idx := 1\<rparr>))"
    by (simp add: probe_loop.simps [of registry3 s ?q 0] probe_loop.simps [of registry3 s "?q\<lparr>idx := 0\<rparr>" "Suc 0"]
        b0 b1 l)
  then show ?thesis by (simp add: blkid_do_probe_def Let_def)
qed

lemma do_probe_calls_registry3:
  "fltr pr = None \<Longrightarrow> do_probe_calls registry3 s (Some pr) n = replicate n (0, Some 1)"
proof (induction n arbitrary: pr)
  case 0
  show ?case by simp
next
  case (Suc n)
  let ?pr' = "probe_matched first_prober ((blkid_probe_reset_vals pr)\<lparr>idx := 1\<rparr>)"
  have "fltr ?pr' = None" using Suc.prems by (simp add: probe_matched_frame blkid_probe_reset_vals_def)
  from Suc.IH [OF this] show ?case
    by (simp add: do_probe_registry3 [OF Suc.prems] probe_matched_frame)
qed

text \<open>
  C1.  A registry of three probers, of which the second and the third accept the
  device, and a fresh session that requests \<open>TYPE\<close>.  Every call of
  \<^verbatim>\<open>blkid_do_probe\<close> returns 0 with the cursor at index 1: the second call starts at
  index 0 again, not at index 2, reports \<open>first\<close> once more, and no call ever
  returns 1.
\<close>

theorem do_probe_restarts_from_zero:
  "do_probe_calls registry3 dev8 (Some type_probe) n = replicate n (0, Some 1) \<and>
   blkid_do_probe registry3 dev8 (snd (blkid_do_probe registry3 dev8 (Some type_probe)))
     = blkid_do_probe registry3 dev8 (Some type_probe) \<and>
   map_option (\<lambda>pr. prval_bytes (vals pr ! 0)) (snd (blkid_do_probe registry3 dev8 (Some type_probe)))
     = Some (bytes_of ''first'' @ [0])"
proof -
  have f: "fltr type_probe = None" by (simp add: type_probe_def zero_probe_def)
  let ?q = "(blkid_probe_reset_vals type_probe)\<lparr>idx := 1\<rparr>"
  let ?pr' = "probe_matched first_prober ?q"
  have f': "fltr ?pr' = None" using f by (simp add: probe_matched_frame blkid_probe_reset_vals_def)
  have e0: "blkid_do_probe registry3 dev8 (Some type_probe) = (0, Some ?pr')"
    by (rule do_probe_registry3 [OF f])
  have e1: "blkid_do_probe registry3 dev8 (Some ?pr')
      = (0, Some (probe_matched first_prober ((blkid_probe_reset_vals ?pr')\<lparr>idx := 1\<rparr>)))"
    by (rule do_probe_registry3 [OF f'])
  have e2: "(blkid_probe_reset_vals ?pr')\<lparr>idx := 1\<rparr> = ?q"
    by (simp add: probe_matched_frame) (simp add: blkid_probe_reset_vals_def)
  have again: "blkid_do_probe registry3 dev8 (Some ?pr') = blkid_do_probe registry3 dev8 (Some type_probe)"
    by (simp only: e0 e1 e2)
  have q: "nvals ?q < BLKID_PROBVAL_NVALS" "nvals ?q = 0" "vals_wf ?q"
    "probreq ?q AND BLKID_PROBREQ_TYPE \<noteq> 0" "probreq ?q AND BLKID_PROBREQ_USAGE = 0"
    by (simp_all add: blkid_probe_reset_vals_def BLKID_PROBVAL_NVALS_def vals_wf_def zero_prval_def
        list_all_iff type_probe_def zero_probe_def BLKID_PROBREQ_TYPE_def BLKID_PROBREQ_USAGE_def)
  have pm: "?pr' = snd (blkid_probe_set_value ?q (Some ''TYPE'') (bytes_of ''first'' @ [0]))"
    using q(4,5) by (simp add: probe_matched_def first_prober_def Let_def set_value_frame)
  have lv: "0 < length (vals ?q)" by (simp add: blkid_probe_reset_vals_def BLKID_PROBVAL_NVALS_def)
  have ld: "length (v_data (vals ?q ! 0)) = BLKID_PROBVAL_BUFSIZ"
    using vals_wf_data [OF q(3), of 0] by (simp add: BLKID_PROBVAL_NVALS_def)
  have "prval_bytes (vals ?pr' ! 0) = bytes_of ''first'' @ [0]"
    unfolding pm using set_value_room [OF q(1), of "bytes_of ''first'' @ [0]" "''TYPE''"] q(2) lv ld
    by (simp add: val_upd_def prval_bytes_def store_at0_def bytes_of_def BLKID_PROBVAL_BUFSIZ_def)
  then show ?thesis
    using again by (simp add: do_probe_calls_registry3 [OF f] e0)
qed

end
